theory Spec2Isabelle
  imports Main
begin

section \<open>Python values used by \<open>yt_dlp/extractor/europa.py\<close>\<close>

text \<open>
  Strings are \<open>char list\<close>: the model covers the code points below 256. On these Python's
  \<open>\d\<close> is exactly \<open>0\<close> to \<open>9\<close>, and \<open>str.strip\<close> removes the twelve characters of
  \<open>is_space\<close>. Exceptions are values: a function that can raise returns \<open>error + 'a\<close>.
\<close>

datatype error = ValueError | TypeError | OverflowError | ManifestError

definition is_digit :: "char \<Rightarrow> bool" where
  "is_digit c = (c \<in> set ''0123456789'')"

definition is_space :: "char \<Rightarrow> bool" where
  "is_space c = (c \<in> set [CHR 0x09, CHR 0x0A, CHR 0x0B, CHR 0x0C, CHR 0x0D, CHR 0x1C, CHR 0x1D,
     CHR 0x1E, CHR 0x1F, CHR 0x20, CHR 0x85, CHR 0xA0])"

text \<open>\<open>str.strip()\<close>: whitespace is removed at both ends.\<close>

definition strip :: "string \<Rightarrow> string" where
  "strip s = rev (dropWhile is_space (rev (dropWhile is_space s)))"

text \<open>
  \<open>int(s)\<close> on the strings \<open>_strptime\<close> passes to it (digits, possibly after a blank, or a
  slice of the UTC offset that holds a colon): surrounding whitespace is ignored, and anything
  but a non-empty run of digits raises \<open>ValueError\<close>.
\<close>

definition py_int :: "string \<Rightarrow> error + int" where
  "py_int s =
     (let t = strip s in
      if t = [] \<or> \<not> list_all is_digit t then Inl ValueError
      else Inr (foldl (\<lambda>a c. 10 * a + (int (of_char c) - 48)) 0 t))"

section \<open>Regular expressions, as \<open>re\<close> matches them\<close>

text \<open>
  The constructs the patterns of this module and of \<open>_strptime\<close> use. \<open>Rep lo hi r\<close> is the
  greedy \<open>r{lo,hi}\<close> and \<open>Star r\<close> the greedy \<open>r*\<close>. \<open>ends r s\<close> lists what is left of \<open>s\<close>
  after each way \<open>r\<close> matches at its start, in the order the backtracking matcher tries them
  (an alternative's left branch first, one more repetition before stopping). The repeated
  expressions here consume a character in every round, so \<open>r*\<close> on \<open>s\<close> runs at most
  \<open>length s\<close> rounds.
\<close>

datatype regex =
    Eps
  | Lit char
  | Digit
  | OneOf "char list"
  | Cat regex regex
  | Alt regex regex
  | Rep nat nat regex
  | Star regex

primrec rep_ends :: "(string \<Rightarrow> string list) \<Rightarrow> nat \<Rightarrow> nat \<Rightarrow> string \<Rightarrow> string list" where
  "rep_ends f lo 0 s = (if lo = 0 then [s] else [])"
| "rep_ends f lo (Suc hi) s =
     concat (map (rep_ends f (lo - 1) hi) (f s)) @ (if lo = 0 then [s] else [])"

fun ends :: "regex \<Rightarrow> string \<Rightarrow> string list" where
  "ends Eps s = [s]"
| "ends (Lit c) s = (case s of [] \<Rightarrow> [] | x # xs \<Rightarrow> if x = c then [xs] else [])"
| "ends Digit s = (case s of [] \<Rightarrow> [] | x # xs \<Rightarrow> if is_digit x then [xs] else [])"
| "ends (OneOf cs) s = (case s of [] \<Rightarrow> [] | x # xs \<Rightarrow> if x \<in> set cs then [xs] else [])"
| "ends (Cat a b) s = concat (map (\<lambda>t. ends b t) (ends a s))"
| "ends (Alt a b) s = ends a s @ ends b s"
| "ends (Rep lo hi r) s = rep_ends (\<lambda>t. ends r t) lo hi s"
| "ends (Star r) s = rep_ends (\<lambda>t. ends r t) 0 (length s) s"

text \<open>A pattern written as a sequence, and the optional \<open>r?\<close>.\<close>

definition seq :: "regex list \<Rightarrow> regex" where
  "seq rs = foldr Cat rs Eps"

definition Opt :: "regex \<Rightarrow> regex" where
  "Opt r = Rep 0 1 r"

text \<open>\<open>re.match(r, s)\<close> finds a match at the start of \<open>s\<close>; what follows the match is free.\<close>

definition re_match :: "regex \<Rightarrow> string \<Rightarrow> bool" where
  "re_match r s = (ends r s \<noteq> [])"

text \<open>
  \<open>re.sub(p, r"\1", s)\<close> for a pattern \<open>p\<close> of the form \<open>(g)r\<close>: scanning from the left, the
  first match (in the matcher's order) at the earliest position is replaced by what its group
  \<open>g\<close> matched, and the scan goes on behind the match. A match of no characters replaces
  nothing and the scan moves on by one character.
\<close>

definition first_match :: "regex \<Rightarrow> regex \<Rightarrow> string \<Rightarrow> (string \<times> string) option" where
  "first_match g r s =
     (case concat (map (\<lambda>t. map (\<lambda>u. (t, u)) (ends r t)) (ends g s)) of
        [] \<Rightarrow> None
      | (t, u) # _ \<Rightarrow> Some (take (length s - length t) s, u))"

function re_sub_group1 :: "regex \<Rightarrow> regex \<Rightarrow> string \<Rightarrow> string" where
  "re_sub_group1 g r s =
     (case first_match g r s of
        Some (grp, rest) \<Rightarrow>
          if length rest < length s then grp @ re_sub_group1 g r rest
          else (case s of [] \<Rightarrow> [] | c # cs \<Rightarrow> c # re_sub_group1 g r cs)
      | None \<Rightarrow> (case s of [] \<Rightarrow> [] | c # cs \<Rightarrow> c # re_sub_group1 g r cs))"
  by pat_completeness auto
termination
  by (relation "measure (\<lambda>(g, r, s). length s)") auto

section \<open>\<open>datetime\<close> values and \<open>datetime.strptime\<close>\<close>

text \<open>
  A \<open>datetime\<close> object: its calendar fields and the offset of its \<open>tzinfo\<close> from UTC in
  microseconds (\<open>None\<close> for a naive object).
\<close>

record datetime =
  year :: int
  month :: int
  day :: int
  hour :: int
  minute :: int
  second :: int
  microsecond :: int
  utcoffset :: "int option"

definition andThen :: "error + 'a \<Rightarrow> ('a \<Rightarrow> error + 'b) \<Rightarrow> error + 'b" where
  "andThen x f = (case x of Inl e \<Rightarrow> Inl e | Inr v \<Rightarrow> f v)"

definition is_leap :: "int \<Rightarrow> bool" where
  "is_leap y = (y mod 4 = 0 \<and> (y mod 100 \<noteq> 0 \<or> y mod 400 = 0))"

definition days_in_month :: "int \<Rightarrow> int \<Rightarrow> int" where
  "days_in_month y m =
     (if m = 2 \<and> is_leap y then 29
      else [31, 28, 31, 30, 31, 30, 31, 31, 30, 31, 30, 31] ! nat (m - 1))"

definition days_before_year :: "int \<Rightarrow> int" where
  "days_before_year y = (y - 1) * 365 + (y - 1) div 4 - (y - 1) div 100 + (y - 1) div 400"

definition days_before_month :: "int \<Rightarrow> int \<Rightarrow> int" where
  "days_before_month y m = sum_list (map (days_in_month y) [1..m - 1])"

text \<open>\<open>date.toordinal()\<close>: day 1 is 0001-01-01.\<close>

definition ymd2ord :: "int \<Rightarrow> int \<Rightarrow> int \<Rightarrow> int" where
  "ymd2ord y m d = days_before_year y + days_before_month y m + d"

text \<open>
  The regular expressions of \<open>_strptime.TimeRE\<close> (CPython 3.12) for the directives the two
  formats of this module use. The expression of a format is compiled with \<open>re.IGNORECASE\<close>:
  a letter of the format matches in either case.
\<close>

definition alts :: "regex list \<Rightarrow> regex" where
  "alts rs = foldr Alt rs (OneOf [])"

definition directive :: "char \<Rightarrow> regex option" where
  "directive = map_of
     [(CHR ''d'', alts [seq [Lit CHR ''3'', OneOf ''01''], seq [OneOf ''12'', Digit],
                       seq [Lit CHR ''0'', OneOf ''123456789''], OneOf ''123456789'',
                       seq [Lit CHR '' '', OneOf ''123456789'']]),
      (CHR ''f'', Rep 1 6 (OneOf ''0123456789'')),
      (CHR ''H'', alts [seq [Lit CHR ''2'', OneOf ''0123''], seq [OneOf ''01'', Digit], Digit]),
      (CHR ''m'', alts [seq [Lit CHR ''1'', OneOf ''012''], seq [Lit CHR ''0'', OneOf ''123456789''],
                       OneOf ''123456789'']),
      (CHR ''M'', alts [seq [OneOf ''012345'', Digit], Digit]),
      (CHR ''S'', alts [seq [Lit CHR ''6'', OneOf ''01''], seq [OneOf ''012345'', Digit], Digit]),
      (CHR ''Y'', seq [Digit, Digit, Digit, Digit]),
      (CHR ''z'', alts [seq [OneOf ''+-'', Digit, Digit, Opt (Lit CHR '':''), OneOf ''012345'', Digit,
                            Opt (seq [Opt (Lit CHR '':''), OneOf ''012345'', Digit,
                                      Opt (seq [Lit CHR ''.'', Rep 1 6 Digit])])],
                       Lit CHR ''Z''])]"

definition lit_ci :: "char \<Rightarrow> regex" where
  "lit_ci c =
     (let n = (of_char c :: nat) in
      if 65 \<le> n \<and> n \<le> 90 then OneOf [c, char_of (n + 32)]
      else if 97 \<le> n \<and> n \<le> 122 then OneOf [c, char_of (n - 32)]
      else Lit c)"

text \<open>
  \<open>TimeRE.pattern\<close>: a directive \<open>%x\<close> becomes the named group of \<open>x\<close>, any other character
  of the format stands for itself. A \<open>%\<close> with no directive behind it, or with a character
  that is no directive, makes \<open>_strptime\<close> raise \<open>ValueError\<close>. (Formats with whitespace, or
  with a directive other than the eight above, are outside the model.)
\<close>

datatype piece = Literal regex | Group char regex

fun pattern :: "string \<Rightarrow> error + piece list" where
  "pattern [] = Inr []"
| "pattern (c # cs) =
     (if c = CHR ''%'' then
        (case cs of
           [] \<Rightarrow> Inl ValueError
         | d # ds \<Rightarrow>
             (case directive d of
                None \<Rightarrow> Inl ValueError
              | Some r \<Rightarrow> andThen (pattern ds) (\<lambda>ps. Inr (Group d r # ps))))
      else andThen (pattern cs) (\<lambda>ps. Inr (Literal (lit_ci c) # ps)))"

text \<open>
  Matching the compiled format at the start of the data: every way to match, in the matcher's
  order, with the text of each named group and what is left of the data.
\<close>

fun match_pieces :: "piece list \<Rightarrow> string \<Rightarrow> ((char \<times> string) list \<times> string) list" where
  "match_pieces [] s = [([], s)]"
| "match_pieces (Literal r # ps) s = concat (map (\<lambda>t. match_pieces ps t) (ends r s))"
| "match_pieces (Group k r # ps) s =
     concat (map (\<lambda>t. map (\<lambda>(gs, u). ((k, take (length s - length t) s) # gs, u))
                          (match_pieces ps t)) (ends r s))"

definition found_int :: "(char \<times> string) list \<Rightarrow> char \<Rightarrow> int \<Rightarrow> error + int" where
  "found_int found_dict k dflt =
     (case map_of found_dict k of None \<Rightarrow> Inr dflt | Some t \<Rightarrow> py_int t)"

text \<open>\<open>%f\<close>: the digits are padded with zeros on the right to six.\<close>

definition found_fraction :: "(char \<times> string) list \<Rightarrow> error + int" where
  "found_fraction found_dict =
     (case map_of found_dict (CHR ''f'') of
        None \<Rightarrow> Inr 0
      | Some s \<Rightarrow> py_int (s @ replicate (6 - length s) (CHR ''0'')))"

text \<open>
  \<open>%z\<close>: the offset from UTC in microseconds, \<open>gmtoff\<close> and \<open>gmtoff_fraction\<close> taken together.
  The slices \<open>z[a:b]\<close> are \<open>take (b - a) (drop a z)\<close>; \<open>z[3]\<close> and \<open>z[5]\<close> are read where the
  group's expression has made sure they exist.
\<close>

definition z_without_colons :: "string \<Rightarrow> error + string" where
  "z_without_colons z =
     (if take 1 (drop 3 z) = '':'' then
        (let z1 = take 3 z @ drop 4 z in
         if length z1 > 5 then
           (if take 1 (drop 5 z1) \<noteq> '':'' then Inl ValueError
            else Inr (take 5 z1 @ drop 6 z1))
         else Inr z1)
      else Inr z)"

definition found_gmtoff :: "(char \<times> string) list \<Rightarrow> error + int option" where
  "found_gmtoff found_dict =
     (case map_of found_dict (CHR ''z'') of
        None \<Rightarrow> Inr None
      | Some z0 \<Rightarrow>
          if z0 = ''Z'' then Inr (Some 0)
          else
            andThen (z_without_colons z0) (\<lambda>z.
            andThen (py_int (take 2 (drop 1 z))) (\<lambda>hours.
            andThen (py_int (take 2 (drop 3 z))) (\<lambda>minutes.
            andThen (if take 2 (drop 5 z) = [] then Inr 0 else py_int (take 2 (drop 5 z))) (\<lambda>seconds.
            andThen (py_int (drop 8 z @ replicate (6 - length (drop 8 z)) (CHR ''0''))) (\<lambda>gmtoff_fraction.
              let us = (hours * 60 * 60 + minutes * 60 + seconds) * 1000000 + gmtoff_fraction
              in Inr (Some (if take 1 z = ''-'' then - us else us))))))))"

text \<open>
  What the constructors check: \<open>date(year, month, day)\<close>, the time fields of \<open>datetime(...)\<close>
  and \<open>timezone(offset)\<close>, whose offset lies strictly between minus and plus 24 hours. Each
  raises \<open>ValueError\<close> otherwise.
\<close>

definition valid_date :: "int \<Rightarrow> int \<Rightarrow> int \<Rightarrow> bool" where
  "valid_date y m d = (1 \<le> y \<and> y \<le> 9999 \<and> 1 \<le> m \<and> m \<le> 12 \<and> 1 \<le> d \<and> d \<le> days_in_month y m)"

definition valid_time :: "int \<Rightarrow> int \<Rightarrow> int \<Rightarrow> int \<Rightarrow> bool" where
  "valid_time h mi s us =
     (0 \<le> h \<and> h \<le> 23 \<and> 0 \<le> mi \<and> mi \<le> 59 \<and> 0 \<le> s \<and> s \<le> 59 \<and> 0 \<le> us \<and> us \<le> 999999)"

definition valid_offset :: "int option \<Rightarrow> bool" where
  "valid_offset off =
     (case off of None \<Rightarrow> True | Some us \<Rightarrow> - 86400000000 < us \<and> us < 86400000000)"

definition build_datetime :: "(char \<times> string) list \<Rightarrow> error + datetime" where
  "build_datetime found_dict =
     andThen (found_int found_dict (CHR ''Y'') 1900) (\<lambda>y.
     andThen (found_int found_dict (CHR ''m'') 1) (\<lambda>m.
     andThen (found_int found_dict (CHR ''d'') 1) (\<lambda>d.
     andThen (found_int found_dict (CHR ''H'') 0) (\<lambda>h.
     andThen (found_int found_dict (CHR ''M'') 0) (\<lambda>mi.
     andThen (found_int found_dict (CHR ''S'') 0) (\<lambda>s.
     andThen (found_fraction found_dict) (\<lambda>fraction.
     andThen (found_gmtoff found_dict) (\<lambda>off.
       if valid_date y m d \<and> valid_time h mi s fraction \<and> valid_offset off then
         Inr \<lparr>year = y, month = m, day = d, hour = h, minute = mi, second = s,
              microsecond = fraction, utcoffset = off\<rparr>
       else Inl ValueError))))))))"

text \<open>
  \<open>datetime.strptime(data_string, format)\<close>: the first match of the format's expression at the
  start of the data must reach its end; every failure is a \<open>ValueError\<close>.
\<close>

definition strptime :: "string \<Rightarrow> string \<Rightarrow> error + datetime" where
  "strptime data_string format =
     andThen (pattern format) (\<lambda>ps.
       case match_pieces ps data_string of
         [] \<Rightarrow> Inl ValueError
       | (found_dict, rest) # _ \<Rightarrow>
           if rest \<noteq> [] then Inl ValueError else build_datetime found_dict)"

text \<open>
  Subtracting two \<open>datetime\<close> objects gives a \<open>timedelta\<close>, here in microseconds: two aware
  objects are compared as instants of UTC, two naive ones field by field, and one of each
  raises \<open>TypeError\<close>.
\<close>

definition naive_us :: "datetime \<Rightarrow> int" where
  "naive_us dt =
     ((ymd2ord (year dt) (month dt) (day dt) * 86400 + hour dt * 3600 + minute dt * 60
        + second dt) * 1000000 + microsecond dt)"

definition instant :: "datetime \<Rightarrow> int" where
  "instant dt = naive_us dt - (case utcoffset dt of None \<Rightarrow> 0 | Some off \<Rightarrow> off)"

definition datetime_sub :: "datetime \<Rightarrow> datetime \<Rightarrow> error + int" where
  "datetime_sub a b =
     (if (utcoffset a = None) \<noteq> (utcoffset b = None) then Inl TypeError
      else Inr (instant a - instant b))"

section \<open>\<open>_parse_datetime\<close>\<close>

text \<open>
  \<open>datetime_from_str\<close> of \<open>yt_dlp/utils\<close> is not among the sources, and the spec says of it
  only that the string is "parsed with an explicit format string" and that parsing may throw.
  It is a parameter of the model: a function from the string and the format to a \<open>datetime\<close>
  or to the exception it raises.
\<close>

type_synonym helper = "string \<Rightarrow> string \<Rightarrow> error + datetime"

definition datetime_format_with_microseconds :: string where
  "datetime_format_with_microseconds = ''%Y-%m-%dT%H:%M:%S.%f%z''"

definition datetime_format_without_microseconds :: string where
  "datetime_format_without_microseconds = ''%Y-%m-%dT%H:%M:%S%z''"

text \<open>\<^verbatim>\<open>\d{4}-\d{2}-\d{2}T\d{2}:\d{2}:\d{2}\.\d{1,7}[+-]\d{2}:\d{2}\<close>\<close>

definition datetime_regex_with_microseconds :: regex where
  "datetime_regex_with_microseconds =
     seq [Rep 4 4 Digit, Lit CHR ''-'', Rep 2 2 Digit, Lit CHR ''-'', Rep 2 2 Digit, Lit CHR ''T'',
          Rep 2 2 Digit, Lit CHR '':'', Rep 2 2 Digit, Lit CHR '':'', Rep 2 2 Digit,
          Lit CHR ''.'', Rep 1 7 Digit,
          OneOf ''+-'', Rep 2 2 Digit, Lit CHR '':'', Rep 2 2 Digit]"

text \<open>\<^verbatim>\<open>\d{4}-\d{2}-\d{2}T\d{2}:\d{2}:\d{2}[+-]\d{2}:\d{2}\<close>\<close>

definition datetime_regex_without_microseconds :: regex where
  "datetime_regex_without_microseconds =
     seq [Rep 4 4 Digit, Lit CHR ''-'', Rep 2 2 Digit, Lit CHR ''-'', Rep 2 2 Digit, Lit CHR ''T'',
          Rep 2 2 Digit, Lit CHR '':'', Rep 2 2 Digit, Lit CHR '':'', Rep 2 2 Digit,
          OneOf ''+-'', Rep 2 2 Digit, Lit CHR '':'', Rep 2 2 Digit]"

text \<open>\<^verbatim>\<open>datetime_str = re.sub(r"(\.\d{6})\d*", r"\1", datetime_str)\<close>\<close>

definition truncate_microseconds :: "string \<Rightarrow> string" where
  "truncate_microseconds datetime_str =
     re_sub_group1 (seq [Lit CHR ''.'', Rep 6 6 Digit]) (Star Digit) datetime_str"

text \<open>
  \<^verbatim>\<open>try: return datetime_from_str(s, format=f)\<close> \<^verbatim>\<open>except ValueError: pass\<close>: the value
  is returned (\<open>Some\<close>), a \<open>ValueError\<close> is swallowed (\<open>None\<close>: the function goes on), any other
  exception leaves the function.
\<close>

definition try_datetime_from_str :: "helper \<Rightarrow> string \<Rightarrow> string \<Rightarrow> error + datetime option" where
  "try_datetime_from_str datetime_from_str s format =
     (case datetime_from_str s format of
        Inr dt \<Rightarrow> Inr (Some dt)
      | Inl e \<Rightarrow> if e = ValueError then Inr None else Inl e)"

text \<open>
  \<open>_parse_datetime\<close> on a string. The first attempt rebinds \<open>datetime_str\<close> to the truncated
  string before it parses, so the second check reads the truncated string when the first
  attempt failed. \<open>Inr None\<close> is the final \<^verbatim>\<open>return None\<close>.
\<close>

definition parse_datetime :: "helper \<Rightarrow> string \<Rightarrow> error + datetime option" where
  "parse_datetime datetime_from_str datetime_str =
     (let with_us = re_match datetime_regex_with_microseconds datetime_str;
          datetime_str' = (if with_us then truncate_microseconds datetime_str else datetime_str)
      in
        andThen (if with_us
                 then try_datetime_from_str datetime_from_str datetime_str'
                        datetime_format_with_microseconds
                 else Inr None) (\<lambda>first.
          case first of
            Some dt \<Rightarrow> Inr (Some dt)
          | None \<Rightarrow>
              if re_match datetime_regex_without_microseconds datetime_str'
              then try_datetime_from_str datetime_from_str datetime_str'
                     datetime_format_without_microseconds
              else Inr None))"

section \<open>\<open>EuroParlWebstreamIE._real_extract\<close>\<close>

text \<open>
  \<open>traverse_obj(json_info, 'startDateTime')\<close> is a string of the meeting record or \<open>None\<close>
  (the key is missing or null); \<open>re.match\<close> raises \<open>TypeError\<close> on \<open>None\<close>.
\<close>

definition parse_datetime_field :: "helper \<Rightarrow> string option \<Rightarrow> error + datetime option" where
  "parse_datetime_field datetime_from_str v =
     (case v of None \<Rightarrow> Inl TypeError | Some s \<Rightarrow> parse_datetime datetime_from_str s)"

text \<open>
  \<^verbatim>\<open>video_duration = (end_actual - start_actual).total_seconds().__floor__()\<close>. Subtracting
  with a \<open>None\<close> operand raises \<open>TypeError\<close>. \<open>total_seconds()\<close> is a float; the model takes
  the exact quotient, which has the same floor while the two instants are less than \<open>2^34\<close>
  seconds (544 years) apart.
\<close>

definition video_duration :: "datetime option \<Rightarrow> datetime option \<Rightarrow> error + int" where
  "video_duration start_actual end_actual =
     (case (end_actual, start_actual) of
        (Some e, Some s) \<Rightarrow> andThen (datetime_sub e s) (\<lambda>us. Inr (us div 1000000))
      | _ \<Rightarrow> Inl TypeError)"

text \<open>Lines 190 to 192: both fields are parsed, then the duration is computed.\<close>

definition webstream_duration :: "helper \<Rightarrow> string option \<Rightarrow> string option \<Rightarrow> error + int" where
  "webstream_duration datetime_from_str startDateTime endDateTime =
     andThen (parse_datetime_field datetime_from_str startDateTime) (\<lambda>start_actual.
     andThen (parse_datetime_field datetime_from_str endDateTime) (\<lambda>end_actual.
       video_duration start_actual end_actual))"

text \<open>
  An entry of \<open>json_info['meetingAudio']\<close> (a missing key is the empty list), and \<open>_get_lang\<close>
  with its loop.
\<close>

record audio =
  trackIdentifier :: "string option"
  audio_language :: "string option"

fun get_lang_loop :: "audio list \<Rightarrow> string \<Rightarrow> string option" where
  "get_lang_loop [] track_identifier = None"
| "get_lang_loop (a # meetingAudio) track_identifier =
     (if trackIdentifier a = Some track_identifier then audio_language a
      else get_lang_loop meetingAudio track_identifier)"

definition get_lang :: "audio list \<Rightarrow> string option \<Rightarrow> string option" where
  "get_lang meetingAudio track_identifier =
     (case track_identifier of
        None \<Rightarrow> None
      | Some t \<Rightarrow> get_lang_loop meetingAudio t)"

text \<open>
  A format entry is a dictionary the manifest parser returns: its \<open>language\<close> key (\<open>None\<close>
  when the key is missing) and the rest of it. The entries are objects: \<open>formats.extend(fmt)\<close>
  stores references to them, and the loop that follows updates the objects through \<open>fmt\<close>.
  The model keeps the objects in a heap, addressed by position, and \<open>formats\<close> and \<open>fmt\<close> as
  lists of addresses; every call of the manifest parser returns new objects.
\<close>

record 'a format =
  language :: "string option"
  rest :: 'a

text \<open>\<^verbatim>\<open>for elem in fmt: elem['language'] = _get_lang(elem.get('language'))\<close>\<close>

fun relabel :: "audio list \<Rightarrow> nat list \<Rightarrow> 'a format list \<Rightarrow> 'a format list" where
  "relabel meetingAudio [] h = h"
| "relabel meetingAudio (elem # fmt) h =
     relabel meetingAudio fmt
       (h[elem := (h ! elem)\<lparr>language := get_lang meetingAudio (language (h ! elem))\<rparr>])"

text \<open>
  Modelled from the spec: \<open>InfoExtractor._merge_subtitles\<close> of \<open>yt_dlp/extractor/common\<close>,
  which is not among the sources. The spec: entries are "grouped by language key; later
  entries for the same language are merged (union), never overwritten destructively", and
  tracks "are merged into a single running collection, additively". For every language of
  the new tracks the target keeps its entries and gains the new ones it does not hold yet.
\<close>

definition merge_subtitle_items :: "'s list \<Rightarrow> 's list \<Rightarrow> 's list" where
  "merge_subtitle_items subtitle_list1 subtitle_list2 =
     subtitle_list1 @ filter (\<lambda>x. x \<notin> set subtitle_list1) subtitle_list2"

fun merge_subtitles :: "(string \<times> 's list) list \<Rightarrow> (string \<rightharpoonup> 's list) \<Rightarrow> (string \<rightharpoonup> 's list)" where
  "merge_subtitles [] target = target"
| "merge_subtitles ((lang, subs) # d) target =
     merge_subtitles d
       (target(lang \<mapsto> merge_subtitle_items (case target lang of None \<Rightarrow> [] | Some l \<Rightarrow> l) subs))"

text \<open>
  The state of the loop of lines 202 to 209, and one round of it for what
  \<open>_extract_m3u8_formats_and_subtitles\<close> returned.
\<close>

record ('a, 's) extraction =
  heap :: "'a format list"
  formats :: "nat list"
  subtitles :: "string \<rightharpoonup> 's list"

definition add_manifest ::
  "audio list \<Rightarrow> 'a format list \<times> (string \<times> 's list) list \<Rightarrow> ('a, 's) extraction
     \<Rightarrow> ('a, 's) extraction" where
  "add_manifest meetingAudio r st =
     (let fmt = [length (heap st) ..< length (heap st) + length (fst r)]
      in \<lparr>heap = relabel meetingAudio fmt (heap st @ fst r),
          formats = formats st @ fmt,
          subtitles = merge_subtitles (snd r) (subtitles st)\<rparr>)"

text \<open>
  The loop over the manifests: each element is what the manifest parser did for one
  \<open>hlsUrl\<close>, its result or the exception it raised, which ends the extraction.
\<close>

fun extract_loop ::
  "audio list \<Rightarrow> (error + 'a format list \<times> (string \<times> 's list) list) list \<Rightarrow> ('a, 's) extraction
     \<Rightarrow> error + ('a, 's) extraction" where
  "extract_loop meetingAudio [] st = Inr st"
| "extract_loop meetingAudio (m # ms) st =
     (case m of
        Inl e \<Rightarrow> Inl e
      | Inr r \<Rightarrow> extract_loop meetingAudio ms (add_manifest meetingAudio r st))"

definition initial :: "('a, 's) extraction" where
  "initial = \<lparr>heap = [], formats = [], subtitles = Map.empty\<rparr>"

text \<open>The \<open>formats\<close> list of the result: the objects the addresses stand for.\<close>

definition result_formats :: "('a, 's) extraction \<Rightarrow> 'a format list" where
  "result_formats st = map (\<lambda>a. heap st ! a) (formats st)"

text \<open>
  Modelled from the spec: \<open>traverse_obj\<close> of \<open>yt_dlp/utils\<close>, which is not among the
  sources. The spec has the manifest URLs come from "a single primary entry or a list of
  alternates", and the title from "the first non-absent candidate" in a fixed order. The
  paths are those the source passes. A path is a tuple of keys that are applied one after
  the other (line 217: \<open>('mediaItem', 'mediaSubType')\<close>). A string key reads that key of an
  object and finds nothing in any other value; \<open>...\<close> stands for every element of a list.
  A tuple inside a path is a branch: each of its elements, a key or a path of its own, is
  applied to the same value, and the rest of the path goes on from every result (line 203:
  \<open>meetingVideo\<close>, or every element of \<open>meetingVideos\<close>, and of each its \<open>hlsUrl\<close>). Results
  that are null are dropped; \<open>get_all=False\<close> asks for the first result.
\<close>

datatype json =
    JNull
  | JBool bool
  | JNumber int
  | JString string
  | JArray "json list"
  | JObject "(string \<times> json) list"

datatype key = Key string | Ellipsis | Branch "key list list"

fun apply_key :: "json \<Rightarrow> key \<Rightarrow> json list"
  and apply_path :: "json \<Rightarrow> key list \<Rightarrow> json list"
  and apply_branches :: "json \<Rightarrow> key list list \<Rightarrow> json list" where
  "apply_key obj (Key k) =
     (case obj of
        JObject kvs \<Rightarrow> (case map_of kvs k of None \<Rightarrow> [] | Some v \<Rightarrow> [v])
      | _ \<Rightarrow> [])"
| "apply_key obj Ellipsis =
     (case obj of JArray xs \<Rightarrow> xs | JObject kvs \<Rightarrow> map snd kvs | _ \<Rightarrow> [])"
| "apply_key obj (Branch ps) = apply_branches obj ps"
| "apply_path obj [] = [obj]"
| "apply_path obj (k # ks) = concat (map (\<lambda>v. apply_path v ks) (apply_key obj k))"
| "apply_branches obj [] = []"
| "apply_branches obj (p # ps) = apply_path obj p @ apply_branches obj ps"

definition traverse_all :: "json \<Rightarrow> key list \<Rightarrow> json list" where
  "traverse_all obj path = filter (\<lambda>v. v \<noteq> JNull) (apply_path obj path)"

definition traverse_first :: "json \<Rightarrow> key list \<Rightarrow> json option" where
  "traverse_first obj path = (case traverse_all obj path of [] \<Rightarrow> None | v # _ \<Rightarrow> Some v)"

text \<open>
  \<^verbatim>\<open>traverse_obj(json_info, ((('meetingVideo'), ('meetingVideos', ...)), 'hlsUrl'))\<close>
\<close>

definition hls_urls :: "json \<Rightarrow> json list" where
  "hls_urls json_info =
     traverse_all json_info
       [Branch [[Key ''meetingVideo''], [Key ''meetingVideos'', Ellipsis]], Key ''hlsUrl'']"

text \<open>
  \<^verbatim>\<open>'title': traverse_obj(webpage_nextjs, (('mediaItem', 'title'), ('title', )), get_all=False)\<close>:
  one path of two keys, each a tuple and so a branch.
\<close>

definition webstream_title :: "json \<Rightarrow> json option" where
  "webstream_title webpage_nextjs =
     traverse_first webpage_nextjs
       [Branch [[Key ''mediaItem''], [Key ''title'']], Branch [[Key ''title'']]]"

text \<open>
  \<open>obj[k]\<close> and \<open>obj[k1][k2]...\<close> for the statements about the title: \<open>None\<close> when a key is
  missing, a value on the way is not an object, or the value is null.
\<close>

fun get_key :: "json \<Rightarrow> string \<Rightarrow> json option" where
  "get_key (JObject kvs) k = (case map_of kvs k of Some JNull \<Rightarrow> None | r \<Rightarrow> r)"
| "get_key _ k = None"

fun get_path :: "json \<Rightarrow> string list \<Rightarrow> json option" where
  "get_path obj [] = Some obj"
| "get_path obj (k # ks) = (case get_key obj k of None \<Rightarrow> None | Some v \<Rightarrow> get_path v ks)"

section \<open>\<open>EuropaIE._real_extract\<close>\<close>

text \<open>
  An \<open>item\<close> element of the playlist with what \<open>xpath_text(item, 'lg', default=None)\<close> and
  \<open>xpath_text(item, 'label', default=None)\<close> give for it, and a \<open>file\<close> element with the
  texts of its \<open>url\<close>, \<open>lg\<close> and \<open>lglabel\<close> children (\<open>None\<close>: no such child, or no text).
\<close>

record item =
  lg :: "string option"
  label :: "string option"

record playlist_file =
  file_url :: "string option"
  file_lg :: "string option"
  file_lglabel :: "string option"

text \<open>Python's truth value of an optional string: \<open>None\<close> and \<open>''\<close> are false.\<close>

definition truthy :: "string option \<Rightarrow> bool" where
  "truthy v = (case v of None \<Rightarrow> False | Some s \<Rightarrow> s \<noteq> [])"

text \<open>
  \<open>get_item\<close>: the first loop fills the dictionary \<open>items\<close>, the second returns the entry of
  the first preferred language that has a true one. Falling off the end returns \<open>None\<close>.
\<close>

fun collect_items :: "item list \<Rightarrow> (string \<rightharpoonup> string) \<Rightarrow> (string \<rightharpoonup> string)" where
  "collect_items [] items = items"
| "collect_items (i # is) items =
     collect_items is
       (if truthy (lg i) \<and> truthy (label i) then items(the (lg i) \<mapsto> strip (the (label i)))
        else items)"

fun pick_item :: "(string \<rightharpoonup> string) \<Rightarrow> string list \<Rightarrow> string option" where
  "pick_item items [] = None"
| "pick_item items (p # preference) =
     (if truthy (items p) then items p else pick_item items preference)"

definition get_item :: "item list \<Rightarrow> string list \<Rightarrow> string option" where
  "get_item playlist_items preference = pick_item (collect_items playlist_items Map.empty) preference"

text \<open>
  Modelled from the spec: \<open>orderedSet\<close> of \<open>yt_dlp/utils\<close>, which is not among the sources.
  The spec: the sequence is "deduplicated while preserving first-occurrence order".
\<close>

fun orderedSet :: "'a list \<Rightarrow> 'a list" where
  "orderedSet [] = []"
| "orderedSet (x # xs) = x # orderedSet (filter (\<lambda>y. y \<noteq> x) xs)"

text \<open>
  \<^verbatim>\<open>preferred_lang = query.get('sitelang', ('en', ))[0]\<close> and
  \<^verbatim>\<open>preferred_langs = orderedSet((preferred_lang, 'en', 'int'))\<close>; \<open>sitelang\<close> is the first
  value of that parameter in the URL's query, \<open>None\<close> when the URL has none.
\<close>

definition preferred_lang :: "string option \<Rightarrow> string" where
  "preferred_lang sitelang = (case sitelang of None \<Rightarrow> ''en'' | Some l \<Rightarrow> l)"

definition preferred_langs :: "string option \<Rightarrow> string list" where
  "preferred_langs sitelang = orderedSet [preferred_lang sitelang, ''en'', ''int'']"

text \<open>\<^verbatim>\<open>title = get_item('title', preferred_langs) or video_id\<close>\<close>

definition title :: "item list \<Rightarrow> string option \<Rightarrow> string \<Rightarrow> string" where
  "title title_items sitelang video_id =
     (let t = get_item title_items (preferred_langs sitelang)
      in if truthy t then the t else video_id)"

text \<open>
  Modelled from the spec: \<open>qualities\<close> of \<open>yt_dlp/utils\<close>, which is not among the sources.
  The spec: the function is to "assign each language code a rank equal to its position" in
  the list it is built from, and "unlisted languages receive no rank / lowest": the position
  of the first occurrence, and \<open>-1\<close>, below every position, for a code that is not listed
  (\<open>None\<close>, the language of a file without an \<open>lg\<close> child, is never listed).
\<close>

fun index_of :: "'a list \<Rightarrow> 'a \<Rightarrow> nat option" where
  "index_of [] x = None"
| "index_of (y # ys) x = (if y = x then Some 0 else map_option Suc (index_of ys x))"

definition qualities :: "string list \<Rightarrow> string option \<Rightarrow> int" where
  "qualities quality_ids qid =
     (case qid of
        None \<Rightarrow> - 1
      | Some q \<Rightarrow> (case index_of quality_ids q of None \<Rightarrow> - 1 | Some i \<Rightarrow> int i))"

text \<open>\<^verbatim>\<open>language_preference = qualities(preferred_langs[::-1])\<close>\<close>

definition language_preference :: "string list \<Rightarrow> string option \<Rightarrow> int" where
  "language_preference langs = qualities (rev langs)"

text \<open>The loop of lines 98 to 109 over the \<open>file\<close> elements; \<open>formats.append\<close> adds at the end.\<close>

record europa_format =
  url :: string
  format_id :: "string option"
  format_note :: "string option"
  language_rank :: int

fun europa_formats_loop ::
  "(string option \<Rightarrow> int) \<Rightarrow> playlist_file list \<Rightarrow> europa_format list \<Rightarrow> europa_format list" where
  "europa_formats_loop pref [] fs = fs"
| "europa_formats_loop pref (f # files) fs =
     europa_formats_loop pref files
       (if \<not> truthy (file_url f) then fs
        else fs @ [\<lparr>url = the (file_url f), format_id = file_lg f,
                    format_note = file_lglabel f, language_rank = pref (file_lg f)\<rparr>])"

definition europa_formats :: "string option \<Rightarrow> playlist_file list \<Rightarrow> europa_format list" where
  "europa_formats sitelang files =
     europa_formats_loop (language_preference (preferred_langs sitelang)) files []"

section \<open>Vocabulary of the proofs\<close>

text \<open>Every address in \<open>formats\<close> is an object of the heap.\<close>

definition in_heap :: "('a, 's) extraction \<Rightarrow> bool" where
  "in_heap st = (\<forall>a \<in> set (formats st). a < length (heap st))"

text \<open>
  One-character expressions, and a string that begins with one character for each expression
  of a list: the fixed-width parts of the two patterns are such lists.
\<close>

fun char_ok :: "regex \<Rightarrow> char \<Rightarrow> bool" where
  "char_ok (Lit c) x = (x = c)"
| "char_ok Digit x = is_digit x"
| "char_ok (OneOf cs) x = (x \<in> set cs)"
| "char_ok _ x = False"

fun single :: "regex \<Rightarrow> bool" where
  "single (Lit c) = True"
| "single Digit = True"
| "single (OneOf cs) = True"
| "single _ = False"

fun fits :: "regex list \<Rightarrow> string \<Rightarrow> bool" where
  "fits [] s = True"
| "fits (r # rs) [] = False"
| "fits (r # rs) (x # xs) = (char_ok r x \<and> fits rs xs)"

text \<open>A sequence with every \<open>r{n,n}\<close> written out as \<open>n\<close> copies of \<open>r\<close>.\<close>

fun expand :: "regex list \<Rightarrow> regex list" where
  "expand [] = []"
| "expand (r # rs) =
     (case r of
        Rep lo hi q \<Rightarrow> if lo = hi then replicate lo q @ expand rs else r # expand rs
      | _ \<Rightarrow> r # expand rs)"

text \<open>\<^verbatim>\<open>\d{4}-\d{2}-\d{2}T\d{2}:\d{2}:\d{2}\<close>, \<^verbatim>\<open>[+-]\d{2}:\d{2}\<close> and \<^verbatim>\<open>\.\d{6}\<close>, character by character.\<close>

definition date_time_chars :: "regex list" where
  "date_time_chars =
     [Digit, Digit, Digit, Digit, Lit CHR ''-'', Digit, Digit, Lit CHR ''-'', Digit, Digit,
      Lit CHR ''T'', Digit, Digit, Lit CHR '':'', Digit, Digit, Lit CHR '':'', Digit, Digit]"

definition offset_chars :: "regex list" where
  "offset_chars = [OneOf ''+-'', Digit, Digit, Lit CHR '':'', Digit, Digit]"

definition point_six_digits :: "regex list" where
  "point_six_digits = [Lit CHR ''.'', Digit, Digit, Digit, Digit, Digit, Digit]"

text \<open>A helper whose every call raises the exception \<open>e\<close>.\<close>

definition raising_helper :: "error \<Rightarrow> helper" where
  "raising_helper e date_str format = Inl e"

text \<open>A result that is a value or the exception \<open>ValueError\<close>.\<close>

definition only_ValueError :: "error + 'a \<Rightarrow> bool" where
  "only_ValueError x = (case x of Inl e \<Rightarrow> e = ValueError | Inr v \<Rightarrow> True)"

section \<open>The playlist extractor\<close>

lemma europa_formats_loop_append:
  "europa_formats_loop pref files fs =
     fs @ map (\<lambda>f. \<lparr>url = the (file_url f), format_id = file_lg f,
                      format_note = file_lglabel f, language_rank = pref (file_lg f)\<rparr>)
            (filter (\<lambda>f. truthy (file_url f)) files)"
  by (induction files arbitrary: fs) simp_all

text \<open>
  Claim C10. Every format entry of the playlist extractor has a non-empty URL, and the
  entries are, in order, those of the \<open>file\<close> elements whose \<open>url\<close> is neither missing nor
  empty: the other elements are skipped and add nothing.
\<close>

theorem europa_formats_url_nonempty:
  "(\<forall>e \<in> set (europa_formats sitelang files). url e \<noteq> []) \<and>
   map url (europa_formats sitelang files) =
     map (\<lambda>f. the (file_url f))
       (filter (\<lambda>f. file_url f \<noteq> None \<and> file_url f \<noteq> Some []) files)"
proof -
  have t: "truthy v = (v \<noteq> None \<and> v \<noteq> Some [])" for v
    by (cases v) (simp_all add: truthy_def)
  show ?thesis
    by (auto simp: europa_formats_def europa_formats_loop_append comp_def t)
qed

theorem europa_formats_url_nonempty_witness:
  "map url (europa_formats (Some ''fr'')
     [\<lparr>file_url = Some ''http://a'', file_lg = Some ''fr'', file_lglabel = None\<rparr>,
      \<lparr>file_url = None, file_lg = Some ''en'', file_lglabel = None\<rparr>,
      \<lparr>file_url = Some [], file_lg = Some ''en'', file_lglabel = None\<rparr>,
      \<lparr>file_url = Some ''http://b'', file_lg = None, file_lglabel = None\<rparr>])
     = [''http://a'', ''http://b''] \<and>
   ''http://a'' \<noteq> [] \<and> ''http://b'' \<noteq> []"
  using europa_formats_url_nonempty [of "Some ''fr''"
     "[\<lparr>file_url = Some ''http://a'', file_lg = Some ''fr'', file_lglabel = None\<rparr>,
      \<lparr>file_url = None, file_lg = Some ''en'', file_lglabel = None\<rparr>,
      \<lparr>file_url = Some [], file_lg = Some ''en'', file_lglabel = None\<rparr>,
      \<lparr>file_url = Some ''http://b'', file_lg = None, file_lglabel = None\<rparr>]"]
  by simp

lemma find_snoc:
  "find P (xs @ [x]) =
     (case find P xs of Some y \<Rightarrow> Some y | None \<Rightarrow> if P x then Some x else None)"
  by (induction xs) simp_all

lemma collect_items_lookup:
  "collect_items its m l =
     (case find (\<lambda>i. lg i = Some l \<and> l \<noteq> [] \<and> truthy (label i)) (rev its) of
        None \<Rightarrow> m l
      | Some i \<Rightarrow> Some (strip (the (label i))))"
proof (induction its arbitrary: m)
  case Nil
  then show ?case by simp
next
  case (Cons i its)
  show ?case
    by (cases "lg i") (auto simp: Cons.IH find_snoc truthy_def split: option.splits)
qed

lemma pick_item_find:
  "pick_item items preference =
     (case find (\<lambda>p. truthy (items p)) preference of None \<Rightarrow> None | Some p \<Rightarrow> items p)"
  by (induction preference) simp_all

lemma pick_item_nonempty: "pick_item items preference \<noteq> Some []"
  by (induction preference) (auto simp: truthy_def split: option.splits)

text \<open>
  Claim C4. The dictionary \<open>get_item\<close> builds holds, for a language, the stripped label of
  the last item of that language whose language and label are non-empty. \<open>get_item\<close> returns
  the entry of the first language of the preference list whose entry is non-empty, and
  \<open>None\<close> when there is none; in that case the title is the default, the video identifier.
\<close>

theorem get_item_first_preferred:
  "get_item its preference =
     (case find (\<lambda>p. truthy (collect_items its Map.empty p)) preference of
        None \<Rightarrow> None
      | Some p \<Rightarrow> collect_items its Map.empty p) \<and>
   (\<forall>l. collect_items its Map.empty l =
     (case find (\<lambda>i. lg i = Some l \<and> l \<noteq> [] \<and> truthy (label i)) (rev its) of
        None \<Rightarrow> None
      | Some i \<Rightarrow> Some (strip (the (label i))))) \<and>
   get_item its preference \<noteq> Some [] \<and>
   title its sitelang video_id =
     (case get_item its (preferred_langs sitelang) of None \<Rightarrow> video_id | Some t \<Rightarrow> t)"
proof -
  have a: "get_item its preference =
     (case find (\<lambda>p. truthy (collect_items its Map.empty p)) preference of
        None \<Rightarrow> None
      | Some p \<Rightarrow> collect_items its Map.empty p)"
    by (simp add: get_item_def pick_item_find)
  have b: "\<forall>l. collect_items its Map.empty l =
     (case find (\<lambda>i. lg i = Some l \<and> l \<noteq> [] \<and> truthy (label i)) (rev its) of
        None \<Rightarrow> None
      | Some i \<Rightarrow> Some (strip (the (label i))))"
    by (simp add: collect_items_lookup)
  have c: "get_item its prefs \<noteq> Some []" for prefs
    by (simp add: get_item_def pick_item_nonempty)
  have d: "title its sitelang video_id =
     (case get_item its (preferred_langs sitelang) of None \<Rightarrow> video_id | Some t \<Rightarrow> t)"
    using c[of "preferred_langs sitelang"]
    by (cases "get_item its (preferred_langs sitelang)") (simp_all add: title_def truthy_def)
  from a b c d show ?thesis by blast
qed

theorem get_item_first_preferred_witness:
  "get_item [\<lparr>lg = Some ''fr'', label = Some ''Titre''\<rparr>,
             \<lparr>lg = Some ''int'', label = Some '' TRADE ''\<rparr>,
             \<lparr>lg = Some ''en'', label = Some '' ''\<rparr>] [''en'', ''int''] = Some ''TRADE'' \<and>
   title [\<lparr>lg = Some ''fr'', label = Some ''Titre''\<rparr>] (Some ''en'') ''I107758'' = ''I107758''"
  using get_item_first_preferred [of "[\<lparr>lg = Some ''fr'', label = Some ''Titre''\<rparr>,
             \<lparr>lg = Some ''int'', label = Some '' TRADE ''\<rparr>,
             \<lparr>lg = Some ''en'', label = Some '' ''\<rparr>]" "[''en'', ''int'']"]
    get_item_first_preferred [of "[\<lparr>lg = Some ''fr'', label = Some ''Titre''\<rparr>]"
      "[''en'', ''int'']" "Some ''en''" "''I107758''"]
  by (simp add: truthy_def strip_def is_space_def preferred_langs_def preferred_lang_def)

lemma set_orderedSet: "set (orderedSet xs) = set xs"
  by (induction xs rule: orderedSet.induct) auto

lemma distinct_orderedSet: "distinct (orderedSet xs)"
  by (induction xs rule: orderedSet.induct) (auto simp: set_orderedSet)

text \<open>
  Claim C6, as amended. The preference sequence is \<open>[l, en, int]\<close> for the preferred
  language \<open>l\<close>, without the later repetition of a code: \<open>[en, int]\<close> for \<open>en\<close>, \<open>[int, en]\<close>
  for \<open>int\<close>, and \<open>[l, en, int]\<close> for any other \<open>l\<close>. It has no duplicates, starts with
  \<open>l\<close>, always holds \<open>int\<close>, and ends with \<open>int\<close> exactly when \<open>l\<close> is not \<open>int\<close> itself.
\<close>

theorem preferred_langs_cases:
  "preferred_langs sitelang =
     (if preferred_lang sitelang = ''en'' then [''en'', ''int'']
      else if preferred_lang sitelang = ''int'' then [''int'', ''en'']
      else [preferred_lang sitelang, ''en'', ''int'']) \<and>
   distinct (preferred_langs sitelang) \<and>
   hd (preferred_langs sitelang) = preferred_lang sitelang \<and>
   ''int'' \<in> set (preferred_langs sitelang) \<and>
   (last (preferred_langs sitelang) = ''int'') = (preferred_lang sitelang \<noteq> ''int'')"
  by (simp add: preferred_langs_def)

theorem preferred_langs_cases_witness:
  "preferred_langs (Some ''fr'') = [''fr'', ''en'', ''int''] \<and>
   preferred_langs None = [''en'', ''int''] \<and>
   last (preferred_langs (Some ''fr'')) = ''int''"
  using preferred_langs_cases [of "Some ''fr''"] preferred_langs_cases [of None]
  by (simp add: preferred_lang_def)

text \<open>
  The claim as stated fails for the preferred language \<open>int\<close>: the sequence is
  \<open>[int, en]\<close> and ends with \<open>en\<close>.
\<close>

theorem preferred_langs_int_first:
  "preferred_langs (Some ''int'') = [''int'', ''en''] \<and>
   last (preferred_langs (Some ''int'')) \<noteq> ''int''"
  by (simp add: preferred_langs_def preferred_lang_def)

lemma index_of_None: "index_of xs x = None \<longleftrightarrow> x \<notin> set xs"
  by (induction xs) auto

lemma index_of_append:
  "index_of (xs @ ys) x =
     (case index_of xs x of
        Some i \<Rightarrow> Some i
      | None \<Rightarrow> map_option (\<lambda>i. length xs + i) (index_of ys x))"
proof (induction xs)
  case Nil
  then show ?case by (cases "index_of ys x") simp_all
next
  case (Cons a xs)
  then show ?case
    by (cases "index_of xs x"; cases "index_of ys x") simp_all
qed

lemma index_of_rev_nth:
  "distinct xs \<Longrightarrow> i < length xs \<Longrightarrow> index_of (rev xs) (xs ! i) = Some (length xs - 1 - i)"
proof (induction xs arbitrary: i)
  case Nil
  then show ?case by simp
next
  case (Cons a xs)
  show ?case
  proof (cases i)
    case 0
    with Cons.prems have "index_of (rev xs) a = None"
      by (simp add: index_of_None)
    with 0 show ?thesis
      by (simp add: index_of_append)
  next
    case (Suc j)
    with Cons.prems have j: "j < length xs" and d: "distinct xs"
      by auto
    show ?thesis
      using Cons.IH[OF d j] Suc by (simp add: index_of_append)
  qed
qed

text \<open>
  Claim C5. For a preference list without duplicates, the rank built from the reversed list
  gives the language at position \<open>i\<close> the rank \<open>length - 1 - i\<close>: an earlier language ranks
  strictly above a later one, and every listed language strictly above every unlisted one,
  whose rank is \<open>-1\<close>, as is the rank of a missing language.
\<close>

theorem language_preference_strict_order:
  "distinct prefs \<Longrightarrow>
     (\<forall>i < length prefs.
        language_preference prefs (Some (prefs ! i)) = int (length prefs) - 1 - int i) \<and>
     (\<forall>i j. i < j \<and> j < length prefs \<longrightarrow>
        language_preference prefs (Some (prefs ! j))
          < language_preference prefs (Some (prefs ! i))) \<and>
     (\<forall>j l. j < length prefs \<and> l \<notin> set prefs \<longrightarrow>
        language_preference prefs (Some l) = - 1 \<and>
        language_preference prefs (Some l) < language_preference prefs (Some (prefs ! j))) \<and>
     language_preference prefs None = - 1"
proof -
  assume d: "distinct prefs"
  have rank: "language_preference prefs (Some (prefs ! i)) = int (length prefs) - 1 - int i"
    if "i < length prefs" for i
    using index_of_rev_nth[OF d that] that
    by (simp add: language_preference_def qualities_def of_nat_diff)
  have unlisted: "language_preference prefs (Some l) = - 1" if "l \<notin> set prefs" for l
  proof -
    from that have "index_of (rev prefs) l = None"
      by (simp add: index_of_None)
    then show ?thesis
      by (simp add: language_preference_def qualities_def)
  qed
  have none: "language_preference prefs None = - 1"
    by (simp add: language_preference_def qualities_def)
  show ?thesis
    using rank unlisted none by auto
qed

theorem language_preference_strict_order_witness:
  "distinct [''en'', ''fr''] \<and>
   language_preference [''en'', ''fr''] (Some ''fr'')
     < language_preference [''en'', ''fr''] (Some ''en'') \<and>
   language_preference [''en'', ''fr''] (Some ''de'')
     < language_preference [''en'', ''fr''] (Some ''fr'') \<and>
   language_preference [''en'', ''fr''] (Some ''en'') = 1 \<and>
   language_preference [''en'', ''fr''] (Some ''fr'') = 0 \<and>
   language_preference [''en'', ''fr''] (Some ''de'') = - 1"
proof -
  have d: "distinct [''en'', ''fr'']" by simp
  have m: "''de'' \<notin> set [''en'', ''fr'']" by simp
  from language_preference_strict_order[OF d] have
    r: "\<forall>i < length [''en'', ''fr''].
          language_preference [''en'', ''fr''] (Some ([''en'', ''fr''] ! i))
            = int (length [''en'', ''fr'']) - 1 - int i"
    and u: "\<forall>j l. j < length [''en'', ''fr''] \<and> l \<notin> set [''en'', ''fr''] \<longrightarrow>
        language_preference [''en'', ''fr''] (Some l) = - 1 \<and>
        language_preference [''en'', ''fr''] (Some l)
          < language_preference [''en'', ''fr''] (Some ([''en'', ''fr''] ! j))"
    by blast+
  from r[rule_format, of 0] have r0: "language_preference [''en'', ''fr''] (Some ''en'') = 1"
    by simp
  from r[rule_format, of 1] have r1: "language_preference [''en'', ''fr''] (Some ''fr'') = 0"
    by simp
  from u[rule_format, of 0 "''de''"] m
  have "language_preference [''en'', ''fr''] (Some ''de'') = - 1"
    by simp
  with r0 r1 d show ?thesis by simp
qed

section \<open>The webstream extractor: formats, subtitles and title\<close>

lemma get_lang_loop_find:
  "get_lang_loop meetingAudio t =
     (case find (\<lambda>a. trackIdentifier a = Some t) meetingAudio of
        None \<Rightarrow> None
      | Some a \<Rightarrow> audio_language a)"
  by (induction meetingAudio) simp_all

lemma relabel_fresh:
  "relabel au [length h ..< length h + length fs] (h @ fs) =
     h @ map (\<lambda>f. f\<lparr>language := get_lang au (language f)\<rparr>) fs"
proof (induction fs arbitrary: h)
  case Nil
  then show ?case by simp
next
  case (Cons f fs)
  have "[length h ..< length h + length (f # fs)] =
          length h # [length (h @ [f\<lparr>language := get_lang au (language f)\<rparr>]) ..<
                      length (h @ [f\<lparr>language := get_lang au (language f)\<rparr>]) + length fs]"
    by (simp add: upt_rec)
  moreover have "(h @ f # fs)[length h := ((h @ f # fs) ! length h)\<lparr>language :=
                    get_lang au (language ((h @ f # fs) ! length h))\<rparr>] =
                 (h @ [f\<lparr>language := get_lang au (language f)\<rparr>]) @ fs"
    by simp
  ultimately show ?case
    using Cons.IH[of "h @ [f\<lparr>language := get_lang au (language f)\<rparr>]"]
    by (simp del: upt_Suc)
qed

lemma add_manifest_formats:
  assumes "in_heap st"
  shows "in_heap (add_manifest au r st)"
    and "result_formats (add_manifest au r st) =
           result_formats st @ map (\<lambda>f. f\<lparr>language := get_lang au (language f)\<rparr>) (fst r)"
proof -
  let ?g = "\<lambda>f. f\<lparr>language := get_lang au (language f)\<rparr>"
  have h: "heap (add_manifest au r st) = heap st @ map ?g (fst r)"
    and f: "formats (add_manifest au r st) =
              formats st @ [length (heap st) ..< length (heap st) + length (fst r)]"
    by (simp_all add: add_manifest_def Let_def relabel_fresh)
  show "in_heap (add_manifest au r st)"
    using assms by (auto simp: in_heap_def h f)
  have old: "map (\<lambda>a. (heap st @ map ?g (fst r)) ! a) (formats st)
               = map (\<lambda>a. heap st ! a) (formats st)"
    using assms by (auto simp: in_heap_def nth_append)
  have new: "map (\<lambda>a. (heap st @ map ?g (fst r)) ! a)
               [length (heap st) ..< length (heap st) + length (fst r)]
               = map ?g (fst r)"
    by (rule nth_equalityI) (simp_all add: nth_append)
  show "result_formats (add_manifest au r st) = result_formats st @ map ?g (fst r)"
    by (simp add: result_formats_def h f old new)
qed

lemma extract_loop_formats:
  "in_heap st \<Longrightarrow>
   \<exists>st'. extract_loop au (map Inr rs) st = Inr st' \<and> in_heap st' \<and>
     result_formats st' =
       result_formats st
         @ map (\<lambda>f. f\<lparr>language := get_lang au (language f)\<rparr>) (concat (map fst rs))"
proof (induction rs arbitrary: st)
  case Nil
  then show ?case by simp
next
  case (Cons r rs)
  from add_manifest_formats[OF Cons.prems, of au r]
  have i: "in_heap (add_manifest au r st)"
    and f: "result_formats (add_manifest au r st) =
           result_formats st @ map (\<lambda>f. f\<lparr>language := get_lang au (language f)\<rparr>) (fst r)"
    by simp_all
  from Cons.IH[OF i] f show ?case by auto
qed

text \<open>
  Claim C7. When every manifest is expanded, the loop ends with the format entries of all
  manifests in order, each with its \<open>language\<close> replaced by \<open>_get_lang\<close> of the old value and
  nothing else changed. \<open>_get_lang\<close> of a track identifier is the language of the first entry
  of \<open>meetingAudio\<close> with that \<open>trackIdentifier\<close>; it is \<open>None\<close> when the identifier is \<open>None\<close>
  or no entry has it.
\<close>

theorem webstream_formats_relabelled:
  "(\<exists>st. extract_loop meetingAudio (map Inr rs) initial = Inr st \<and>
      result_formats st =
        map (\<lambda>f. f\<lparr>language := get_lang meetingAudio (language f)\<rparr>) (concat (map fst rs))) \<and>
   get_lang meetingAudio track_identifier =
     (case track_identifier of
        None \<Rightarrow> None
      | Some t \<Rightarrow>
          (case find (\<lambda>a. trackIdentifier a = Some t) meetingAudio of
             None \<Rightarrow> None
           | Some a \<Rightarrow> audio_language a))"
proof -
  have "in_heap (initial :: ('a, 'b) extraction)"
    by (simp add: in_heap_def initial_def)
  from extract_loop_formats[OF this, of meetingAudio rs]
  have "\<exists>st. extract_loop meetingAudio (map Inr rs) initial = Inr st \<and>
      result_formats st =
        map (\<lambda>f. f\<lparr>language := get_lang meetingAudio (language f)\<rparr>) (concat (map fst rs))"
    by (auto simp: result_formats_def initial_def)
  then show ?thesis
    by (simp add: get_lang_def get_lang_loop_find split: option.splits)
qed

theorem webstream_formats_relabelled_witness:
  "\<exists>st. extract_loop
           [\<lparr>trackIdentifier = Some ''a1'', audio_language = Some ''en''\<rparr>,
            \<lparr>trackIdentifier = Some ''a1'', audio_language = Some ''fr''\<rparr>]
           (map Inr [([\<lparr>language = Some ''a1'', rest = (1::nat)\<rparr>,
                       \<lparr>language = None, rest = 2\<rparr>], [(''en'', [''u1''])]),
                     ([\<lparr>language = Some ''zz'', rest = 3\<rparr>], [])]) initial = Inr st \<and>
         result_formats st =
           [\<lparr>language = Some ''en'', rest = 1\<rparr>, \<lparr>language = None, rest = 2\<rparr>,
            \<lparr>language = None, rest = 3\<rparr>]"
  using webstream_formats_relabelled
    [of "[\<lparr>trackIdentifier = Some ''a1'', audio_language = Some ''en''\<rparr>,
          \<lparr>trackIdentifier = Some ''a1'', audio_language = Some ''fr''\<rparr>]"
        "[([\<lparr>language = Some ''a1'', rest = (1::nat)\<rparr>,
            \<lparr>language = None, rest = 2\<rparr>], [(''en'', [''u1''])]),
          ([\<lparr>language = Some ''zz'', rest = 3\<rparr>], [])]" None]
  by (simp add: get_lang_def)

lemma take_prefix_trans:
  assumes "take (length a) b = a" and "take (length b) c = b"
  shows "take (length a) c = a"
proof -
  have "length a \<le> length b"
    using arg_cong[OF assms(1), of length] by simp
  then have "take (length a) c = take (length a) (take (length b) c)"
    by (simp add: min_absorb1)
  with assms show ?thesis by simp
qed

lemma merge_subtitles_keeps:
  "target lang = Some old \<Longrightarrow>
   \<exists>new. merge_subtitles d target lang = Some new \<and> take (length old) new = old"
proof (induction d arbitrary: target old)
  case Nil
  then show ?case by simp
next
  case (Cons p d)
  obtain l subs where p: "p = (l, subs)" by (cases p)
  let ?t = "target(l \<mapsto> merge_subtitle_items (case target l of None \<Rightarrow> [] | Some x \<Rightarrow> x) subs)"
  have "\<exists>mid. ?t lang = Some mid \<and> take (length old) mid = old"
    using Cons.prems by (auto simp: merge_subtitle_items_def)
  then obtain mid where m: "?t lang = Some mid" and tm: "take (length old) mid = old"
    by blast
  from Cons.IH[of ?t mid] m obtain new where n: "merge_subtitles d ?t lang = Some new"
    and tn: "take (length mid) new = mid" by blast
  have "take (length old) new = old"
    using tm tn by (rule take_prefix_trans)
  with n p show ?case by simp
qed

text \<open>
  Claim C8. Whatever the loop has collected for a language stays: from any state of the
  loop, after any further manifests that are expanded, the language is still a key of the
  collection and its earlier entries are the beginning of its entries, in their order.
\<close>

theorem subtitles_never_dropped:
  "extract_loop meetingAudio ms st = Inr st' \<Longrightarrow> subtitles st lang = Some old \<Longrightarrow>
   \<exists>new. subtitles st' lang = Some new \<and> take (length old) new = old \<and> set old \<subseteq> set new"
proof (induction ms arbitrary: st old)
  case Nil
  then show ?case by simp
next
  case (Cons m ms)
  from Cons.prems(1) obtain r where m: "m = Inr r"
    and loop: "extract_loop meetingAudio ms (add_manifest meetingAudio r st) = Inr st'"
    by (cases m) simp_all
  have s: "subtitles (add_manifest meetingAudio r st) = merge_subtitles (snd r) (subtitles st)"
    by (simp add: add_manifest_def Let_def)
  from merge_subtitles_keeps[of "subtitles st" lang old "snd r"] Cons.prems(2) obtain mid
    where mid: "subtitles (add_manifest meetingAudio r st) lang = Some mid"
      and tm: "take (length old) mid = old"
    unfolding s by blast
  from Cons.IH[OF loop mid] obtain new where n: "subtitles st' lang = Some new"
    and tn: "take (length mid) new = mid" by blast
  have t: "take (length old) new = old"
    using tm tn by (rule take_prefix_trans)
  then have "set old \<subseteq> set new"
    by (metis set_take_subset)
  with n t show ?case by blast
qed

theorem subtitles_never_dropped_witness:
  "subtitles (add_manifest [] ([], [(''en'', [''u2'', ''u1'']), (''fr'', [''u3''])])
      \<lparr>heap = ([] :: unit format list), formats = [],
        subtitles = [''en'' \<mapsto> [''u1'']]\<rparr>) ''en'' = Some [''u1'', ''u2''] \<and>
   (\<exists>new. subtitles (add_manifest [] ([], [(''en'', [''u2'', ''u1'']), (''fr'', [''u3''])])
      \<lparr>heap = ([] :: unit format list), formats = [],
        subtitles = [''en'' \<mapsto> [''u1'']]\<rparr>) ''en'' = Some new \<and>
      take (length [''u1'']) new = [''u1''])"
proof -
  let ?st = "\<lparr>heap = ([] :: unit format list), formats = [],
               subtitles = [''en'' \<mapsto> [''u1'']]\<rparr>"
  let ?r = "([] :: unit format list, [(''en'', [''u2'', ''u1'']), (''fr'', [''u3''])])"
  have l: "extract_loop [] [Inr ?r] ?st = Inr (add_manifest [] ?r ?st)"
    by simp
  have o: "subtitles ?st ''en'' = Some [''u1'']"
    by simp
  have v: "subtitles (add_manifest [] ?r ?st) ''en'' = Some [''u1'', ''u2'']"
    by (simp add: add_manifest_def merge_subtitle_items_def)
  from subtitles_never_dropped[OF l o] v show ?thesis
    by auto
qed

lemma hls_urls_example:
  "hls_urls (JObject
      [(''meetingVideo'', JObject [(''hlsUrl'', JString ''u0'')]),
       (''meetingVideos'', JArray [JObject [(''hlsUrl'', JString ''u1'')],
                                   JObject [(''hlsUrl'', JNull)],
                                   JObject [(''hlsUrl'', JString ''u2'')]])])
     = [JString ''u0'', JString ''u1'', JString ''u2'']"
  by (simp add: hls_urls_def traverse_all_def)

lemma key_then_key:
  "filter (\<lambda>v. v \<noteq> JNull) (concat (map (\<lambda>v. apply_key v (Key c)) (apply_key page (Key a))))
     = (case get_path page [a, c] of None \<Rightarrow> [] | Some w \<Rightarrow> [w])"
proof (cases page)
  case (JObject kvs)
  show ?thesis
  proof (cases "map_of kvs a")
    case None
    with JObject show ?thesis by simp
  next
    case (Some v)
    show ?thesis
    proof (cases v)
      case (JObject kvs')
      with Some \<open>page = JObject kvs\<close> show ?thesis
        by (cases "map_of kvs' c") (auto split: json.splits)
    qed (use Some \<open>page = JObject kvs\<close> in simp_all)
  qed
qed simp_all

lemma webstream_title_candidates:
  "webstream_title page =
     (case get_path page [''mediaItem'', ''title''] of
        Some t \<Rightarrow> Some t
      | None \<Rightarrow> get_path page [''title'', ''title''])"
proof -
  have "apply_path page [Branch [[Key ''mediaItem''], [Key ''title'']], Branch [[Key ''title'']]]
          = concat (map (\<lambda>v. apply_key v (Key ''title'')) (apply_key page (Key ''mediaItem'')))
            @ concat (map (\<lambda>v. apply_key v (Key ''title'')) (apply_key page (Key ''title'')))"
    by (simp del: apply_key.simps(1))
  then have "traverse_all page
               [Branch [[Key ''mediaItem''], [Key ''title'']], Branch [[Key ''title'']]]
          = (case get_path page [''mediaItem'', ''title''] of None \<Rightarrow> [] | Some w \<Rightarrow> [w])
            @ (case get_path page [''title'', ''title''] of None \<Rightarrow> [] | Some w \<Rightarrow> [w])"
    by (simp only: traverse_all_def filter_append key_then_key)
  then show ?thesis
    by (simp add: webstream_title_def traverse_first_def split: option.splits)
qed

text \<open>
  Claim C9. The first candidate of line 213 is the nested \<open>mediaItem.title\<close>; the second is
  \<open>title.title\<close>, the \<open>title\<close> key of the top-level \<open>title\<close>, and not the top-level \<open>title\<close>
  itself. On a page without \<open>mediaItem.title\<close> whose top-level \<open>title\<close> is the string
  \<open>Other\<close> the code finds no title, where the claim has \<open>Other\<close>.
\<close>

theorem webstream_title_second_candidate:
  "webstream_title page =
     (case get_path page [''mediaItem'', ''title''] of
        Some t \<Rightarrow> Some t
      | None \<Rightarrow> get_path page [''title'', ''title'']) \<and>
   get_key (JObject [(''mediaItem'', JObject [(''mediaSubType'', JString ''Live'')]),
                     (''title'', JString ''Other'')]) ''title'' = Some (JString ''Other'') \<and>
   webstream_title (JObject [(''mediaItem'', JObject [(''mediaSubType'', JString ''Live'')]),
                             (''title'', JString ''Other'')]) = None \<and>
   webstream_title (JObject [(''title'', JObject [(''title'', JString ''Inner'')])])
     = Some (JString ''Inner'') \<and>
   webstream_title (JObject [(''mediaItem'', JObject [(''title'', JString ''Plenary session'')]),
                             (''title'', JString ''Other'')])
     = Some (JString ''Plenary session'')"
  by (simp add: webstream_title_candidates)

section \<open>The timestamp parser\<close>

lemma ends_single:
  "single r \<Longrightarrow> ends r s = (case s of [] \<Rightarrow> [] | x # xs \<Rightarrow> if char_ok r x then [xs] else [])"
  by (cases r) (auto split: list.splits)

lemma ends_seq_Nil: "ends (seq []) s = [s]"
  by (simp add: seq_def)

lemma ends_seq_Cons: "ends (seq (r # rs)) s = concat (map (ends (seq rs)) (ends r s))"
  by (simp add: seq_def)

lemma concat_map_concat:
  "concat (map f (concat xss)) = concat (map (\<lambda>xs. concat (map f xs)) xss)"
  by (induction xss) simp_all

lemma ends_seq_append:
  "ends (seq (as @ bs)) s = concat (map (ends (seq bs)) (ends (seq as) s))"
proof (induction as arbitrary: s)
  case Nil
  then show ?case by (simp add: ends_seq_Nil)
next
  case (Cons a as)
  have e: "ends (seq (as @ bs)) = (\<lambda>t. concat (map (ends (seq bs)) (ends (seq as) t)))"
    by (rule ext) (rule Cons.IH)
  show ?case
    by (simp add: ends_seq_Cons e concat_map_concat comp_def)
qed

lemma ends_seq_single:
  "list_all single rs \<Longrightarrow>
   ends (seq rs) s = (if fits rs s then [drop (length rs) s] else [])"
proof (induction rs s rule: fits.induct)
  case (1 s)
  then show ?case by (simp add: ends_seq_Nil)
next
  case (2 r rs)
  then show ?case by (simp add: ends_seq_Cons ends_single)
next
  case (3 r rs x xs)
  then show ?case by (simp add: ends_seq_Cons ends_single)
qed

lemma ends_Rep_exact: "ends (Rep n n r) s = ends (seq (replicate n r)) s"
proof (induction n arbitrary: s)
  case 0
  then show ?case by (simp add: ends_seq_Nil)
next
  case (Suc n)
  have "ends (Rep (Suc n) (Suc n) r) s = concat (map (\<lambda>t. ends (Rep n n r) t) (ends r s))"
    by simp
  also have "\<dots> = concat (map (ends (seq (replicate n r))) (ends r s))"
    using Suc.IH by simp
  finally show ?case by (simp add: ends_seq_Cons)
qed

lemma ends_seq_expand: "ends (seq (expand rs)) s = ends (seq rs) s"
proof (induction rs arbitrary: s)
  case Nil
  then show ?case by simp
next
  case (Cons r rs)
  have e: "ends (seq (expand rs)) = ends (seq rs)"
    by (rule ext) (rule Cons.IH)
  show ?case
  proof (cases r)
    case (Rep lo hi q)
    show ?thesis
    proof (cases "lo = hi")
      case True
      have "ends (seq (expand (r # rs))) s
              = concat (map (ends (seq rs)) (ends (seq (replicate lo q)) s))"
        using True Rep by (simp add: ends_seq_append e)
      also have "\<dots> = concat (map (ends (seq rs)) (ends r s))"
        using True Rep by (simp add: ends_Rep_exact del: ends.simps)
      finally show ?thesis by (simp add: ends_seq_Cons)
    next
      case False
      with Rep show ?thesis by (simp add: ends_seq_Cons e)
    qed
  qed (simp_all add: ends_seq_Cons e)
qed

lemma fits_length: "fits rs s \<Longrightarrow> length rs \<le> length s"
  by (induction rs s rule: fits.induct) simp_all

lemma fits_append:
  "fits (as @ bs) s = (fits as s \<and> fits bs (drop (length as) s))"
  by (induction as s rule: fits.induct) simp_all

lemma fits_prefix: "length rs \<le> length a \<Longrightarrow> fits rs (a @ b) = fits rs a"
  by (induction rs a rule: fits.induct) simp_all

lemma fits_excludes:
  "fits rs s \<Longrightarrow> list_all (\<lambda>r. \<not> char_ok r c) rs \<Longrightarrow> c \<notin> set (take (length rs) s)"
  by (induction rs s rule: fits.induct) auto

lemma single_date_time_chars: "list_all single date_time_chars"
  by (simp add: date_time_chars_def)

lemma single_offset_chars: "list_all single offset_chars"
  by (simp add: offset_chars_def)

lemma length_date_time_chars: "length date_time_chars = 19"
  by (simp add: date_time_chars_def)

lemma length_offset_chars: "length offset_chars = 6"
  by (simp add: offset_chars_def)

lemma ends_with_microseconds:
  "ends datetime_regex_with_microseconds s =
     (if fits (date_time_chars @ [Lit CHR ''.'']) s
      then concat (map (\<lambda>t. if fits offset_chars t then [drop 6 t] else [])
                       (ends (Rep 1 7 Digit) (drop 20 s)))
      else [])"
proof -
  let ?rs = "[Rep 4 4 Digit, Lit CHR ''-'', Rep 2 2 Digit, Lit CHR ''-'', Rep 2 2 Digit, Lit CHR ''T'',
          Rep 2 2 Digit, Lit CHR '':'', Rep 2 2 Digit, Lit CHR '':'', Rep 2 2 Digit,
          Lit CHR ''.'', Rep 1 7 Digit,
          OneOf ''+-'', Rep 2 2 Digit, Lit CHR '':'', Rep 2 2 Digit]"
  have x: "expand ?rs = (date_time_chars @ [Lit CHR ''.'']) @ Rep 1 7 Digit # offset_chars"
    by (simp add: date_time_chars_def offset_chars_def numeral_eq_Suc)
  have s1: "list_all single (date_time_chars @ [Lit CHR ''.''])"
    by (simp add: date_time_chars_def)
  have o: "ends (seq offset_chars) = (\<lambda>t. if fits offset_chars t then [drop 6 t] else [])"
    by (rule ext) (simp add: ends_seq_single[OF single_offset_chars] length_offset_chars)
  have "ends datetime_regex_with_microseconds s = ends (seq (expand ?rs)) s"
    by (simp only: ends_seq_expand datetime_regex_with_microseconds_def)
  also have "\<dots> = concat (map (ends (seq (Rep 1 7 Digit # offset_chars)))
                        (ends (seq (date_time_chars @ [Lit CHR ''.''])) s))"
    by (simp only: x ends_seq_append)
  also have "\<dots> = (if fits (date_time_chars @ [Lit CHR ''.'']) s
      then ends (seq (Rep 1 7 Digit # offset_chars)) (drop 20 s) else [])"
    by (simp add: ends_seq_single[OF s1] length_date_time_chars del: ends.simps)
  finally show ?thesis
    by (simp add: ends_seq_Cons o del: ends.simps)
qed

lemma ends_without_microseconds:
  "ends datetime_regex_without_microseconds s =
     (if fits (date_time_chars @ offset_chars) s then [drop 25 s] else [])"
proof -
  let ?rs = "[Rep 4 4 Digit, Lit CHR ''-'', Rep 2 2 Digit, Lit CHR ''-'', Rep 2 2 Digit, Lit CHR ''T'',
          Rep 2 2 Digit, Lit CHR '':'', Rep 2 2 Digit, Lit CHR '':'', Rep 2 2 Digit,
          OneOf ''+-'', Rep 2 2 Digit, Lit CHR '':'', Rep 2 2 Digit]"
  have x: "expand ?rs = date_time_chars @ offset_chars"
    by (simp add: date_time_chars_def offset_chars_def numeral_eq_Suc)
  have s1: "list_all single (date_time_chars @ offset_chars)"
    by (simp add: date_time_chars_def offset_chars_def)
  have "ends datetime_regex_without_microseconds s = ends (seq (expand ?rs)) s"
    by (simp only: ends_seq_expand datetime_regex_without_microseconds_def)
  also have "\<dots> = ends (seq (date_time_chars @ offset_chars)) s"
    by (simp only: x)
  finally show ?thesis
    by (simp add: ends_seq_single[OF s1] length_date_time_chars length_offset_chars
          del: ends.simps)
qed

text \<open>What \<open>\d{lo,hi}\<close> can leave: the string without its first \<open>k\<close> characters, all digits.\<close>

lemma set_rep_ends_Digit:
  "set (rep_ends (\<lambda>t. ends Digit t) lo hi s) =
     {drop k s |k. lo \<le> k \<and> k \<le> hi \<and> k \<le> length s \<and> list_all is_digit (take k s)}"
proof (induction hi arbitrary: lo s)
  case 0
  then show ?case by auto
next
  case (Suc hi)
  show ?case
  proof (cases s)
    case Nil
    then show ?thesis by auto
  next
    case (Cons x xs)
    show ?thesis
    proof (cases "is_digit x")
      case False
      have "{drop k s |k. lo \<le> k \<and> k \<le> Suc hi \<and> k \<le> length s \<and> list_all is_digit (take k s)}
              = (if lo = 0 then {s} else {})"
      proof -
        have "list_all is_digit (take k s) \<longleftrightarrow> k = 0" for k
          using False Cons by (cases k) simp_all
        then show ?thesis by auto
      qed
      with False Cons show ?thesis by simp
    next
      case True
      have "{drop k s |k. lo \<le> k \<and> k \<le> Suc hi \<and> k \<le> length s \<and> list_all is_digit (take k s)}
              = {drop j xs |j. lo - 1 \<le> j \<and> j \<le> hi \<and> j \<le> length xs \<and> list_all is_digit (take j xs)}
                  \<union> (if lo = 0 then {s} else {})" (is "?L = ?R")
      proof (intro set_eqI iffI)
        fix t assume "t \<in> ?L"
        then obtain k where k: "t = drop k s" "lo \<le> k" "k \<le> Suc hi" "k \<le> length s"
          "list_all is_digit (take k s)" by blast
        show "t \<in> ?R"
        proof (cases k)
          case 0
          with k show ?thesis by simp
        next
          case (Suc j)
          with k Cons have "t = drop j xs \<and> lo - 1 \<le> j \<and> j \<le> hi \<and> j \<le> length xs
              \<and> list_all is_digit (take j xs)" by auto
          then show ?thesis by blast
        qed
      next
        fix t assume "t \<in> ?R"
        then consider j where "t = drop j xs" "lo - 1 \<le> j" "j \<le> hi" "j \<le> length xs"
            "list_all is_digit (take j xs)" | "lo = 0" "t = s"
          by (auto split: if_splits)
        then show "t \<in> ?L"
        proof cases
          case 1
          then have "t = drop (Suc j) s \<and> lo \<le> Suc j \<and> Suc j \<le> Suc hi \<and> Suc j \<le> length s
              \<and> list_all is_digit (take (Suc j) s)"
            using True Cons by auto
          then show ?thesis by blast
        next
          case 2
          then have "t = drop 0 s \<and> lo \<le> 0 \<and> 0 \<le> Suc hi \<and> 0 \<le> length s
              \<and> list_all is_digit (take 0 s)" by simp
          then show ?thesis by blast
        qed
      qed
      with True Cons Suc.IH[of "lo - 1" xs] show ?thesis by simp
    qed
  qed
qed

text \<open>The first, greedy, match of \<open>\d*\<close> takes every leading digit.\<close>

lemma hd_rep_ends_Digit:
  "length s \<le> n \<Longrightarrow>
   rep_ends (\<lambda>t. ends Digit t) 0 n s \<noteq> [] \<and>
   hd (rep_ends (\<lambda>t. ends Digit t) 0 n s) = dropWhile is_digit s"
proof (induction n arbitrary: s)
  case 0
  then show ?case by simp
next
  case (Suc n)
  show ?case
  proof (cases s)
    case Nil
    then show ?thesis by simp
  next
    case (Cons x xs)
    with Suc.prems have "length xs \<le> n" by simp
    from Suc.IH[OF this] Cons show ?thesis by simp
  qed
qed

lemma set_ends_Rep_Digit:
  "set (ends (Rep lo hi Digit) s) =
     {drop k s |k. lo \<le> k \<and> k \<le> hi \<and> k \<le> length s \<and> list_all is_digit (take k s)}"
proof -
  have "ends (Rep lo hi Digit) s = rep_ends (\<lambda>t. ends Digit t) lo hi s"
    by (rule ends.simps)
  then show ?thesis
    by (simp only: set_rep_ends_Digit)
qed

lemma concat_map_if_nonempty:
  "concat (map (\<lambda>t. if P t then [f t] else []) xs) \<noteq> [] \<longleftrightarrow> (\<exists>t \<in> set xs. P t)"
  by (induction xs) simp_all

lemma re_match_with_microseconds:
  "re_match datetime_regex_with_microseconds s \<longleftrightarrow>
     fits (date_time_chars @ [Lit CHR ''.'']) s \<and>
     (\<exists>k. 1 \<le> k \<and> k \<le> 7 \<and> k \<le> length (drop 20 s) \<and> list_all is_digit (take k (drop 20 s)) \<and>
          fits offset_chars (drop k (drop 20 s)))"
proof (cases "fits (date_time_chars @ [Lit CHR ''.'']) s")
  case True
  then have "ends datetime_regex_with_microseconds s =
      concat (map (\<lambda>t. if fits offset_chars t then [drop 6 t] else [])
                  (ends (Rep 1 7 Digit) (drop 20 s)))"
    by (simp only: ends_with_microseconds if_True)
  then have "re_match datetime_regex_with_microseconds s \<longleftrightarrow>
      (\<exists>t \<in> set (ends (Rep 1 7 Digit) (drop 20 s)). fits offset_chars t)"
    by (simp only: re_match_def concat_map_if_nonempty)
  with True show ?thesis
    unfolding set_ends_Rep_Digit by auto
next
  case False
  then have "ends datetime_regex_with_microseconds s = []"
    by (simp only: ends_with_microseconds if_False)
  with False show ?thesis
    by (simp add: re_match_def)
qed

lemma re_match_without_microseconds:
  "re_match datetime_regex_without_microseconds s \<longleftrightarrow> fits (date_time_chars @ offset_chars) s"
  by (simp add: re_match_def ends_without_microseconds)

lemma ends_point_six_digits:
  "ends (seq [Lit CHR ''.'', Rep 6 6 Digit]) s =
     (if fits point_six_digits s then [drop 7 s] else [])"
proof -
  have x: "expand [Lit CHR ''.'', Rep 6 6 Digit] = point_six_digits"
    by (simp add: point_six_digits_def numeral_eq_Suc)
  have s1: "list_all single point_six_digits"
    by (simp add: point_six_digits_def)
  have len: "length point_six_digits = 7"
    by (simp add: point_six_digits_def)
  have "ends (seq [Lit CHR ''.'', Rep 6 6 Digit]) s
          = ends (seq (expand [Lit CHR ''.'', Rep 6 6 Digit])) s"
    by (simp only: ends_seq_expand)
  also have "\<dots> = ends (seq point_six_digits) s"
    by (simp only: x)
  finally show ?thesis
    by (simp add: ends_seq_single[OF s1] len del: ends.simps)
qed

lemma ends_Star_Digit:
  "ends (Star Digit) t \<noteq> [] \<and> hd (ends (Star Digit) t) = dropWhile is_digit t"
proof -
  have "ends (Star Digit) t = rep_ends (\<lambda>u. ends Digit u) 0 (length t) t"
    by (rule ends.simps)
  then show ?thesis
    using hd_rep_ends_Digit[of t "length t"] by simp
qed

lemma first_match_truncate:
  "first_match (seq [Lit CHR ''.'', Rep 6 6 Digit]) (Star Digit) s =
     (if fits point_six_digits s then Some (take 7 s, dropWhile is_digit (drop 7 s)) else None)"
proof (cases "fits point_six_digits s")
  case False
  then show ?thesis
    by (simp add: first_match_def ends_point_six_digits del: ends.simps)
next
  case True
  then have l: "7 \<le> length s"
    using fits_length[of point_six_digits s] by (simp add: point_six_digits_def)
  obtain u us where u: "ends (Star Digit) (drop 7 s) = u # us"
    and h: "u = dropWhile is_digit (drop 7 s)"
    using ends_Star_Digit[of "drop 7 s"] by (cases "ends (Star Digit) (drop 7 s)") auto
  from True l show ?thesis
    by (simp add: first_match_def ends_point_six_digits u h del: ends.simps)
qed

lemma truncate_step:
  "truncate_microseconds s =
     (if fits point_six_digits s
      then take 7 s @ truncate_microseconds (dropWhile is_digit (drop 7 s))
      else (case s of [] \<Rightarrow> [] | c # cs \<Rightarrow> c # truncate_microseconds cs))"
proof (cases "fits point_six_digits s")
  case False
  then show ?thesis
    unfolding truncate_microseconds_def
    by (subst re_sub_group1.simps) (simp add: first_match_truncate del: ends.simps)
next
  case True
  then have l: "7 \<le> length s"
    using fits_length[of point_six_digits s] by (simp add: point_six_digits_def)
  have "length (dropWhile is_digit (drop 7 s)) \<le> length (drop 7 s)"
    by (rule length_dropWhile_le)
  with l have "length (dropWhile is_digit (drop 7 s)) < length s"
    by simp
  with True show ?thesis
    unfolding truncate_microseconds_def
    by (subst re_sub_group1.simps) (simp add: first_match_truncate del: ends.simps)
qed

lemma truncate_Cons_other:
  "c \<noteq> CHR ''.'' \<Longrightarrow> truncate_microseconds (c # s) = c # truncate_microseconds s"
  by (subst truncate_step) (simp add: point_six_digits_def)

lemma truncate_Nil: "truncate_microseconds [] = []"
  by (subst truncate_step) (simp add: point_six_digits_def)

lemma truncate_prefix:
  "CHR ''.'' \<notin> set p \<Longrightarrow> truncate_microseconds (p @ s) = p @ truncate_microseconds s"
  by (induction p) (auto simp: truncate_Cons_other)



lemma truncate_point: "\<exists>t'. truncate_microseconds (CHR ''.'' # t) = CHR ''.'' # t'"
proof (cases "fits point_six_digits (CHR ''.'' # t)")
  case True
  then show ?thesis by (subst truncate_step) simp
next
  case False
  then show ?thesis by (subst truncate_step) simp
qed

lemma date_time_chars_no_point: "fits date_time_chars p \<Longrightarrow> length p = 19 \<Longrightarrow> CHR ''.'' \<notin> set p"
proof -
  assume a: "fits date_time_chars p" and l: "length p = 19"
  have "list_all (\<lambda>r. \<not> char_ok r CHR ''.'') date_time_chars"
    by (simp add: date_time_chars_def is_digit_def)
  from fits_excludes[OF a this] l show ?thesis
    by (simp add: length_date_time_chars)
qed


lemma only_ValueError_simps [simp]:
  "only_ValueError (Inr v)" "only_ValueError (Inl e) = (e = ValueError)"
  by (simp_all add: only_ValueError_def)

lemma only_ValueError_andThen:
  "only_ValueError x \<Longrightarrow> (\<And>v. only_ValueError (f v)) \<Longrightarrow> only_ValueError (andThen x f)"
  by (cases x) (simp_all add: andThen_def)

lemma only_ValueError_py_int: "only_ValueError (py_int s)"
  by (simp add: py_int_def Let_def)

lemma only_ValueError_found_int: "only_ValueError (found_int fd k d)"
  by (simp add: found_int_def only_ValueError_py_int split: option.splits)

lemma only_ValueError_found_fraction: "only_ValueError (found_fraction fd)"
  by (simp add: found_fraction_def only_ValueError_py_int split: option.splits)

lemma only_ValueError_z_without_colons: "only_ValueError (z_without_colons z)"
  by (simp add: z_without_colons_def Let_def)

lemma only_ValueError_found_gmtoff: "only_ValueError (found_gmtoff fd)"
proof (cases "map_of fd (CHR ''z'')")
  case None
  then show ?thesis by (simp add: found_gmtoff_def)
next
  case (Some z0)
  show ?thesis
  proof (cases "z0 = ''Z''")
    case True
    with Some show ?thesis by (simp add: found_gmtoff_def)
  next
    case False
    have "only_ValueError
            (andThen (z_without_colons z0) (\<lambda>z.
             andThen (py_int (take 2 (drop 1 z))) (\<lambda>hours.
             andThen (py_int (take 2 (drop 3 z))) (\<lambda>minutes.
             andThen (if take 2 (drop 5 z) = [] then Inr 0 else py_int (take 2 (drop 5 z))) (\<lambda>seconds.
             andThen (py_int (drop 8 z @ replicate (6 - length (drop 8 z)) (CHR ''0''))) (\<lambda>gmtoff_fraction.
               let us = (hours * 60 * 60 + minutes * 60 + seconds) * 1000000 + gmtoff_fraction
               in Inr (Some (if take 1 z = ''-'' then - us else us))))))))"
      by (intro only_ValueError_andThen only_ValueError_z_without_colons only_ValueError_py_int)
         (simp_all add: only_ValueError_py_int Let_def)
    with Some False show ?thesis by (simp add: found_gmtoff_def)
  qed
qed

lemma only_ValueError_build_datetime: "only_ValueError (build_datetime fd)"
  unfolding build_datetime_def
  by (intro only_ValueError_andThen only_ValueError_found_int only_ValueError_found_fraction
        only_ValueError_found_gmtoff) simp

lemma only_ValueError_pattern: "only_ValueError (pattern fmt)"
proof (induction fmt rule: pattern.induct)
  case 1
  then show ?case by simp
next
  case (2 c cs)
  show ?case
  proof (cases "c = CHR ''%''")
    case True
    show ?thesis
    proof (cases cs)
      case Nil
      with True show ?thesis by simp
    next
      case (Cons d ds)
      show ?thesis
      proof (cases "directive d")
        case None
        with True Cons show ?thesis by simp
      next
        case (Some r)
        from "2.IH"(1)[OF True Cons Some] have "only_ValueError (pattern ds)" .
        then have "only_ValueError (andThen (pattern ds) (\<lambda>ps. Inr (Group d r # ps)))"
          by (rule only_ValueError_andThen) simp
        with True Cons Some show ?thesis by simp
      qed
    qed
  next
    case False
    from "2.IH"(2)[OF False] have "only_ValueError (pattern cs)" .
    then have "only_ValueError (andThen (pattern cs) (\<lambda>ps. Inr (Literal (lit_ci c) # ps)))"
      by (rule only_ValueError_andThen) simp
    with False show ?thesis by simp
  qed
qed

lemma only_ValueError_strptime: "only_ValueError (strptime s fmt)"
  unfolding strptime_def
  by (rule only_ValueError_andThen[OF only_ValueError_pattern])
     (simp add: only_ValueError_build_datetime split: list.splits prod.splits)

lemma strptime_ValueError: "strptime s fmt = Inl e \<Longrightarrow> e = ValueError"
  using only_ValueError_strptime[of s fmt] by simp

lemma with_microseconds_shape:
  assumes "re_match datetime_regex_with_microseconds s"
  shows "\<exists>p t. s = p @ CHR ''.'' # t \<and> length p = 19 \<and> fits date_time_chars p"
proof -
  from assms have f: "fits (date_time_chars @ [Lit CHR ''.'']) s"
    by (simp add: re_match_with_microseconds)
  from fits_length[OF f] have l: "20 \<le> length s"
    by (simp add: length_date_time_chars)
  from f have fd: "fits date_time_chars s" and pt: "fits [Lit CHR ''.''] (drop 19 s)"
    by (simp_all add: fits_append length_date_time_chars)
  from pt obtain t where d: "drop 19 s = CHR ''.'' # t"
    by (cases "drop 19 s") simp_all
  have s: "s = take 19 s @ CHR ''.'' # t"
    using d by (metis append_take_drop_id)
  have lp: "length (take 19 s) = 19"
    using l by simp
  have "fits date_time_chars (take 19 s @ drop 19 s)"
    using fd by simp
  then have "fits date_time_chars (take 19 s)"
    using lp by (simp only: fits_prefix length_date_time_chars order_refl)
  with s lp show ?thesis by blast
qed

lemma with_then_not_without:
  assumes "re_match datetime_regex_with_microseconds s"
  shows "\<not> re_match datetime_regex_without_microseconds (truncate_microseconds s)"
proof -
  from with_microseconds_shape[OF assms] obtain p t
    where s: "s = p @ CHR ''.'' # t" and lp: "length p = 19" and fp: "fits date_time_chars p"
    by blast
  from date_time_chars_no_point[OF fp lp] have "CHR ''.'' \<notin> set p" .
  then have "truncate_microseconds s = p @ truncate_microseconds (CHR ''.'' # t)"
    by (simp add: s truncate_prefix)
  moreover obtain t' where "truncate_microseconds (CHR ''.'' # t) = CHR ''.'' # t'"
    using truncate_point by blast
  ultimately have tr: "truncate_microseconds s = p @ CHR ''.'' # t'"
    by simp
  have "\<not> fits offset_chars (CHR ''.'' # t')"
    by (simp add: offset_chars_def)
  then have "\<not> fits (date_time_chars @ offset_chars) (p @ CHR ''.'' # t')"
    using lp by (simp add: fits_append length_date_time_chars)
  then show ?thesis
    by (simp add: tr re_match_without_microseconds)
qed

text \<open>
  The two ways through \<open>_parse_datetime\<close>: what the helper makes of the truncated string when
  the first pattern matches, and of the string itself when only the second does.
\<close>

lemma parse_datetime_with:
  assumes "re_match datetime_regex_with_microseconds s"
  shows "parse_datetime h s =
     (case h (truncate_microseconds s) datetime_format_with_microseconds of
        Inr dt \<Rightarrow> Inr (Some dt)
      | Inl err \<Rightarrow> if err = ValueError then Inr None else Inl err)"
  using assms with_then_not_without[OF assms]
  by (simp add: parse_datetime_def Let_def try_datetime_from_str_def andThen_def
           split: sum.splits)

lemma parse_datetime_without:
  assumes "\<not> re_match datetime_regex_with_microseconds s"
  shows "parse_datetime h s =
     (if re_match datetime_regex_without_microseconds s
      then (case h s datetime_format_without_microseconds of
              Inr dt \<Rightarrow> Inr (Some dt)
            | Inl err \<Rightarrow> if err = ValueError then Inr None else Inl err)
      else Inr None)"
  using assms
  by (simp add: parse_datetime_def Let_def try_datetime_from_str_def andThen_def
           split: sum.splits)

text \<open>
  Claim C2, as amended. \<open>_parse_datetime\<close> returns \<open>None\<close> on a string that neither pattern
  matches, without calling the helper. When the first pattern matches, the result is what the
  helper makes of the truncated string, and when only the second matches, of the string: its
  value, \<open>None\<close> when it raises \<open>ValueError\<close>, and its exception when it raises any other,
  which the handlers do not catch. With a helper that raises nothing but \<open>ValueError\<close> the
  function never raises.
\<close>

theorem parse_datetime_catches_ValueError:
  "(\<not> re_match datetime_regex_with_microseconds s \<and>
    \<not> re_match datetime_regex_without_microseconds s \<longrightarrow> parse_datetime h s = Inr None) \<and>
   (re_match datetime_regex_with_microseconds s \<longrightarrow>
      parse_datetime h s =
        (case h (truncate_microseconds s) datetime_format_with_microseconds of
           Inr dt \<Rightarrow> Inr (Some dt)
         | Inl err \<Rightarrow> if err = ValueError then Inr None else Inl err)) \<and>
   (\<not> re_match datetime_regex_with_microseconds s \<and>
    re_match datetime_regex_without_microseconds s \<longrightarrow>
      parse_datetime h s =
        (case h s datetime_format_without_microseconds of
           Inr dt \<Rightarrow> Inr (Some dt)
         | Inl err \<Rightarrow> if err = ValueError then Inr None else Inl err)) \<and>
   ((\<forall>t fmt err. h t fmt = Inl err \<longrightarrow> err = ValueError) \<longrightarrow>
      (\<exists>r. parse_datetime h s = Inr r))"
proof (cases "re_match datetime_regex_with_microseconds s")
  case True
  from parse_datetime_with[OF True, of h] show ?thesis
    using True by (auto split: sum.splits)
next
  case False
  from parse_datetime_without[OF False, of h] show ?thesis
    using False by (auto split: sum.splits)
qed

theorem parse_datetime_catches_ValueError_witness:
  "parse_datetime strptime ''not-a-date'' = Inr None \<and>
   parse_datetime strptime ''2022-02-30T09:00:00+02:00'' = Inr None \<and>
   parse_datetime strptime ''2022-09-14T09:00:00.5+02:60'' = Inr None \<and>
   parse_datetime (raising_helper TypeError) ''2022-09-14T09:00:00+02:00'' = Inl TypeError \<and>
   (\<exists>r. parse_datetime strptime ''2022-09-14T09:00:00+02:00'' = Inr r)"
proof -
  have a: "\<not> re_match datetime_regex_with_microseconds ''not-a-date'' \<and>
           \<not> re_match datetime_regex_without_microseconds ''not-a-date''"
    by code_simp
  have b: "\<not> re_match datetime_regex_with_microseconds ''2022-02-30T09:00:00+02:00'' \<and>
       re_match datetime_regex_without_microseconds ''2022-02-30T09:00:00+02:00''"
    by code_simp
  have b': "strptime ''2022-02-30T09:00:00+02:00'' datetime_format_without_microseconds
              = Inl ValueError"
    by code_simp
  have c: "re_match datetime_regex_with_microseconds ''2022-09-14T09:00:00.5+02:60''"
    by code_simp
  have c': "strptime (truncate_microseconds ''2022-09-14T09:00:00.5+02:60'')
              datetime_format_with_microseconds = Inl ValueError"
    by code_simp
  have d: "\<not> re_match datetime_regex_with_microseconds ''2022-09-14T09:00:00+02:00'' \<and>
       re_match datetime_regex_without_microseconds ''2022-09-14T09:00:00+02:00''"
    by code_simp
  have v: "\<forall>t fmt err. strptime t fmt = Inl err \<longrightarrow> err = ValueError"
    using strptime_ValueError by blast
  from parse_datetime_catches_ValueError[of "''not-a-date''" strptime] a
  have 1: "parse_datetime strptime ''not-a-date'' = Inr None" by blast
  from parse_datetime_catches_ValueError[of "''2022-02-30T09:00:00+02:00''" strptime] b b'
  have 2: "parse_datetime strptime ''2022-02-30T09:00:00+02:00'' = Inr None" by simp
  from parse_datetime_catches_ValueError[of "''2022-09-14T09:00:00.5+02:60''" strptime] c c'
  have 3: "parse_datetime strptime ''2022-09-14T09:00:00.5+02:60'' = Inr None" by simp
  from parse_datetime_catches_ValueError
         [of "''2022-09-14T09:00:00+02:00''" "raising_helper TypeError"] d
  have 4: "parse_datetime (raising_helper TypeError) ''2022-09-14T09:00:00+02:00''
             = Inl TypeError"
    by (simp add: raising_helper_def)
  from parse_datetime_catches_ValueError[of "''2022-09-14T09:00:00+02:00''" strptime] v
  have 5: "\<exists>r. parse_datetime strptime ''2022-09-14T09:00:00+02:00'' = Inr r" by blast
  from 1 2 3 4 5 show ?thesis by blast
qed

text \<open>
  The claim as stated fails when the parse attempt throws anything but \<open>ValueError\<close>. The
  patterns are matched at the start of the string only, so a timestamp with more text behind
  it reaches the helper; if the helper raises \<open>OverflowError\<close> there, so does
  \<open>_parse_datetime\<close>.
\<close>

theorem parse_datetime_raises_with_helper:
  "re_match datetime_regex_without_microseconds ''2022-09-14T09:00:00+02:00+9999999999day'' \<and>
   parse_datetime (raising_helper OverflowError) ''2022-09-14T09:00:00+02:00+9999999999day''
     = Inl OverflowError"
  by code_simp




text \<open>
  Claim C3. Two parsed instants 34 seconds apart give the duration 34 (here with
  \<open>datetime.strptime\<close> as the helper). When a timestamp does not parse, \<open>_parse_datetime\<close>
  returns \<open>None\<close>, whatever the helper, and the subtraction of line 192 raises \<open>TypeError\<close>,
  which nothing in \<open>_real_extract\<close> catches: the extraction aborts, where the claim has an
  absent duration. A missing timestamp raises \<open>TypeError\<close> in \<open>re.match\<close>.
\<close>

theorem webstream_duration_aborts:
  "video_duration start_actual None = Inl TypeError \<and>
   video_duration None end_actual = Inl TypeError \<and>
   parse_datetime h ''not-a-date'' = Inr None \<and>
   andThen (parse_datetime_field h (Some ''not-a-date'')) (video_duration start_actual)
     = Inl TypeError \<and>
   webstream_duration strptime (Some ''2022-09-14T09:00:00+00:00'') (Some ''not-a-date'')
     = Inl TypeError \<and>
   webstream_duration strptime (Some ''2022-09-14T09:00:00+00:00'') None = Inl TypeError \<and>
   webstream_duration strptime (Some ''2022-09-14T09:00:00+00:00'')
     (Some ''2022-09-14T09:00:34+00:00'') = Inr 34"
proof -
  have a: "video_duration start_actual None = Inl TypeError"
    by (simp add: video_duration_def)
  have b: "video_duration None end_actual = Inl TypeError"
    by (cases end_actual) (simp_all add: video_duration_def)
  have n: "\<not> re_match datetime_regex_with_microseconds ''not-a-date'' \<and>
           \<not> re_match datetime_regex_without_microseconds ''not-a-date''"
    by code_simp
  then have c: "parse_datetime h ''not-a-date'' = Inr None"
    by (simp add: parse_datetime_without)
  have c': "andThen (parse_datetime_field h (Some ''not-a-date'')) (video_duration start_actual)
              = Inl TypeError"
    by (simp add: parse_datetime_field_def c andThen_def a)
  have d: "webstream_duration strptime (Some ''2022-09-14T09:00:00+00:00'') (Some ''not-a-date'')
             = Inl TypeError"
    by code_simp
  have e: "webstream_duration strptime (Some ''2022-09-14T09:00:00+00:00'') None = Inl TypeError"
    by code_simp
  have f: "webstream_duration strptime (Some ''2022-09-14T09:00:00+00:00'')
             (Some ''2022-09-14T09:00:34+00:00'') = Inr 34"
    by code_simp
  from a b c c' d e f show ?thesis by blast
qed

end
